theory Spec2Isabelle
  imports Complex_Main "HOL-Library.AList" "HOL-Library.Multiset"
begin

section \<open>Dates\<close>

text \<open>
  A JavaScript \<open>Date\<close> is modelled by its local calendar fields: the full year, the
  month (0 = January, as \<open>getMonth\<close> reports it), the day of the month
  (\<open>getDate\<close>, from 1) and the milliseconds elapsed within the day. The server's zone
  is taken to have a fixed offset, so a day always has 86400000 ms.
\<close>

record jsdate =
  year :: int
  month :: nat
  date :: nat
  timeInDay :: nat

definition msPerDay :: int where
  "msPerDay = 1000 * 60 * 60 * 24"

definition isLeapYear :: "int \<Rightarrow> bool" where
  "isLeapYear y = (y mod 4 = 0 \<and> (y mod 100 \<noteq> 0 \<or> y mod 400 = 0))"

definition DaysInMonth :: "int \<Rightarrow> nat \<Rightarrow> nat" where
  "DaysInMonth y m =
     (if m = 1 then (if isLeapYear y then 29 else 28)
      else if m = 3 \<or> m = 5 \<or> m = 8 \<or> m = 10 then 30
      else 31)"

text \<open>The month after \<open>(y, m)\<close> and the month before it.\<close>

definition nextMonth :: "int \<times> nat \<Rightarrow> int \<times> nat" where
  "nextMonth ym = (case ym of (y, m) \<Rightarrow> if 11 \<le> m then (y + 1, 0) else (y, m + 1))"

definition prevMonth :: "int \<times> nat \<Rightarrow> int \<times> nat" where
  "prevMonth ym = (case ym of (y, m) \<Rightarrow> if m = 0 then (y - 1, 11) else (y, m - 1))"

text \<open>
  \<open>Date.prototype.setDate\<close> and \<open>setMonth\<close> accept a day of the month beyond the
  end of the month and carry the excess into the following months (ECMAScript
  \<open>MakeDay\<close>). \<open>carryDays\<close> is that carry for a day number from 1 upwards.
\<close>

function carryDays :: "int \<Rightarrow> nat \<Rightarrow> nat \<Rightarrow> int \<times> nat \<times> nat" where
  "carryDays y m d =
     (if DaysInMonth y m < d
      then carryDays (fst (nextMonth (y, m))) (snd (nextMonth (y, m))) (d - DaysInMonth y m)
      else (y, m, d))"
  by pat_completeness auto
termination
  by (relation "measure (\<lambda>(y, m, d). d)") (auto simp: DaysInMonth_def)

declare carryDays.simps [simp del]

text \<open>
  \<open>MakeDay year month date\<close>: months outside 0..11 move the year; day 0 is the last day
  of the month before (the program never asks for it: it only adds to \<open>getDate()\<close>).
\<close>

definition MakeDay :: "int \<Rightarrow> nat \<Rightarrow> nat \<Rightarrow> int \<times> nat \<times> nat" where
  "MakeDay y m d =
     (let ym = y + int (m div 12); mn = m mod 12
      in if d = 0
         then (case prevMonth (ym, mn) of (py, pm) \<Rightarrow> (py, pm, DaysInMonth py pm))
         else carryDays ym mn d)"

definition setDate :: "jsdate \<Rightarrow> nat \<Rightarrow> jsdate" where
  "setDate dt d =
     (case MakeDay (year dt) (month dt) d of
        (y, m, d') \<Rightarrow> dt\<lparr>year := y, month := m, date := d'\<rparr>)"

definition setMonth :: "jsdate \<Rightarrow> nat \<Rightarrow> jsdate" where
  "setMonth dt m =
     (case MakeDay (year dt) m (date dt) of
        (y, m', d') \<Rightarrow> dt\<lparr>year := y, month := m', date := d'\<rparr>)"

text \<open>
  The time value of a date (milliseconds since 1970-01-01), which \<open>new Date() - d\<close> and
  the comparison of two dates read: ECMAScript's \<open>DayFromYear\<close> plus the days before the
  month plus the day of the month.
\<close>

definition DayFromYear :: "int \<Rightarrow> int" where
  "DayFromYear y =
     365 * (y - 1970) + (y - 1969) div 4 - (y - 1901) div 100 + (y - 1601) div 400"

fun daysBeforeMonth :: "int \<Rightarrow> nat \<Rightarrow> nat" where
  "daysBeforeMonth y 0 = 0"
| "daysBeforeMonth y (Suc m) = daysBeforeMonth y m + DaysInMonth y m"

definition timeValue :: "jsdate \<Rightarrow> int" where
  "timeValue dt =
     (DayFromYear (year dt) + int (daysBeforeMonth (year dt) (month dt)) + (int (date dt) - 1))
       * msPerDay + int (timeInDay dt)"

text \<open>A date that names a day of the calendar.\<close>

definition validDate :: "jsdate \<Rightarrow> bool" where
  "validDate dt =
     (month dt < 12 \<and> 1 \<le> date dt \<and> date dt \<le> DaysInMonth (year dt) (month dt))"

text \<open>The day after a date, and the same day of the following month.\<close>

definition nextDay :: "jsdate \<Rightarrow> jsdate" where
  "nextDay dt =
     (if date dt < DaysInMonth (year dt) (month dt) then dt\<lparr>date := date dt + 1\<rparr>
      else (case nextMonth (year dt, month dt) of
              (y, m) \<Rightarrow> dt\<lparr>year := y, month := m, date := 1\<rparr>))"

section \<open>Task frequencies and end dates\<close>

text \<open>
  \<open>taskFrequencies\<close> is the object literal of the controller: two areas are configured,
  every other key is absent.
\<close>

definition taskFrequencies :: "string \<Rightarrow> string option" where
  "taskFrequencies a =
     (if a = ''Cortar el pasto'' then Some ''monthly''
      else if a = ''Terraza y Escaleras'' then Some ''biweekly''
      else None)"

definition calculateEndDate :: "jsdate \<Rightarrow> string \<Rightarrow> jsdate" where
  "calculateEndDate startDate freq =
     (if freq = ''monthly'' then setMonth startDate (month startDate + 1)
      else if freq = ''biweekly'' then setDate startDate (date startDate + 14)
      else setDate startDate (date startDate + 7))"

text \<open>\<open>taskFrequencies[areaInfo.area] || 'weekly'\<close>, as the rotation computes it.\<close>

definition frequencyOf :: "string \<Rightarrow> string" where
  "frequencyOf a = (case taskFrequencies a of Some f \<Rightarrow> f | None \<Rightarrow> ''weekly'')"

section \<open>Data model\<close>

text \<open>
  Identifiers are Mongo object ids; the controller only compares them
  (\<open>r.toString() === userId\<close>), so they are opaque numbers here. The Mongoose schemas
  are not among the sources: a record has the fields the controller reads and writes.
  The completion flag of a task is a boolean, so that \<open>task.completed === false\<close> is
  its negation; the statuses are the four and the three that the controller assigns.
\<close>

type_synonym user_id = nat
type_synonym task_id = nat
type_synonym request_id = nat

record user =
  user_id :: user_id
  fullName :: string
  availableNextWeek :: bool

datatype verification_status = Pending | InProgress | Approved | Rejected

datatype swap_status = SwapPending | SwapAccepted | SwapRejected

record verification =
  verifier :: user_id
  approved :: bool
  comment :: string
  verifiedAt :: jsdate

record swap_request =
  request_id :: request_id
  requestedBy :: user_id
  targetTask :: task_id
  status :: swap_status
  createdAt :: jsdate

record task =
  task_id :: task_id
  area :: string
  frequency :: string
  responsibles :: "user_id list"
  temporaryResponsible :: "user_id option"
  startDate :: jsdate
  endDate :: jsdate
  verifiers :: "user_id list"
  completed :: bool
  completedAt :: "jsdate option"
  verificationStatus :: verification_status
  verifications :: "verification list"
  swapRequests :: "swap_request list"

text \<open>
  The database: the two collections, and the counter new object ids are drawn from.
\<close>

record db =
  users :: "user list"
  tasks :: "task list"
  nextId :: nat

text \<open>
  A handler answers with \<open>res.json(value)\<close> or with \<open>res.status(code).json({error})\<close>;
  the error is the HTTP status and which of the controller's messages it carries.
\<close>

datatype failure =
    InsufficientUsers
  | TaskNotFound
  | RequestNotFound
  | OfferedTaskNotFound
  | NoPermission
  | TaskNotCompleted
  | NotVerifier
  | AlreadyVerified
  | TasksAlreadyCompleted
  | DuplicateRequest
  | TooManyPendingRequests
  | InvalidRequest
  | Exception

type_synonym error = "nat \<times> failure"

text \<open>\<open>req.user\<close>, as the authentication middleware leaves it.\<close>

record actor =
  actor_id :: user_id
  actor_isAdmin :: bool

definition findById :: "task list \<Rightarrow> task_id \<Rightarrow> task option" where
  "findById ts i = find (\<lambda>t. task_id t = i) ts"

text \<open>
  \<open>doc.save()\<close> and \<open>findByIdAndUpdate\<close> write the paths the handler changed onto the
  stored document with that id.
\<close>

definition save :: "task_id \<Rightarrow> (task \<Rightarrow> task) \<Rightarrow> task list \<Rightarrow> task list" where
  "save i f ts = map (\<lambda>t. if task_id t = i then f t else t) ts"

text \<open>
  The permission test every handler repeats:
  \<open>task.responsibles.some(r => r.toString() === userId) ||
   (task.temporaryResponsible && task.temporaryResponsible.toString() === userId)\<close>.
\<close>

definition isResponsible :: "task \<Rightarrow> user_id \<Rightarrow> bool" where
  "isResponsible t u = (u \<in> set (responsibles t) \<or> temporaryResponsible t = Some u)"

section \<open>Verification\<close>

text \<open>Lines 596-613 of the controller: the status from the votes and the roster.\<close>

definition updateVerificationStatus :: "task \<Rightarrow> verification_status" where
  "updateVerificationStatus t =
     (let totalVerifiers = length (verifiers t);
          totalVerifications = length (verifications t);
          approvedCount = length (filter (\<lambda>v. approved v) (verifications t));
          rejectedCount = length (filter (\<lambda>v. \<not> approved v) (verifications t))
      in if totalVerifications = totalVerifiers
         then (if rejectedCount < approvedCount then Approved else Rejected)
         else if rejectedCount < approvedCount then Approved
         else if approvedCount < rejectedCount then Rejected
         else InProgress)"

text \<open>Lines 587-613: push the vote, then recompute the status.\<close>

definition castVote :: "task \<Rightarrow> user_id \<Rightarrow> bool \<Rightarrow> string \<Rightarrow> jsdate \<Rightarrow> task" where
  "castVote t verifierId approved' comment' now =
     (let voted = t\<lparr>verifications := verifications t @
            [\<lparr>verifier = verifierId, approved = approved', comment = comment',
              verifiedAt = now\<rparr>]\<rparr>
      in voted\<lparr>verificationStatus := updateVerificationStatus voted\<rparr>)"

text \<open>
  \<open>verifyTask\<close> loads the task with \<open>verifiers\<close> and \<open>verifications.verifier\<close>
  populated. The roster test compares \<open>v._id.toString()\<close>, the id, with the caller's
  id. The test for an earlier vote compares \<open>v.verifier.toString()\<close> with it:
  \<open>v.verifier\<close> is then a user document, and \<open>toString\<close> of a Mongoose document is
  the text that \<open>inspect\<close> prints for it, which is never the text of an object id.
  The users who have voted are taken to exist still, so that every populated
  \<open>v.verifier\<close> is a document.
\<close>

datatype js_string = ObjectIdString nat | DocumentString nat

definition verifyTask ::
  "task_id \<Rightarrow> user_id \<Rightarrow> bool \<Rightarrow> string \<Rightarrow> jsdate \<Rightarrow> db \<Rightarrow> (error + task) \<times> db" where
  "verifyTask taskId verifierId approved' comment' now s =
     (case findById (tasks s) taskId of
        None \<Rightarrow> (Inl (404, TaskNotFound), s)
      | Some t \<Rightarrow>
          if \<not> completed t then (Inl (400, TaskNotCompleted), s)
          else if \<not> list_ex (\<lambda>v. ObjectIdString v = ObjectIdString verifierId) (verifiers t)
          then (Inl (403, NotVerifier), s)
          else if list_ex (\<lambda>v. DocumentString (verifier v) = ObjectIdString verifierId)
                    (verifications t)
          then (Inl (400, AlreadyVerified), s)
          else
            let t' = castVote t verifierId approved' comment' now
            in (Inr t',
                s\<lparr>tasks := save taskId
                  (\<lambda>x. x\<lparr>verifications := verifications t',
                          verificationStatus := verificationStatus t'\<rparr>) (tasks s)\<rparr>))"

section \<open>Completion\<close>

definition markAsCompleted ::
  "task_id \<Rightarrow> bool \<Rightarrow> actor \<Rightarrow> jsdate \<Rightarrow> db \<Rightarrow> (error + task) \<times> db" where
  "markAsCompleted taskId completed' usr now s =
     (case findById (tasks s) taskId of
        None \<Rightarrow> (Inl (404, TaskNotFound), s)
      | Some t \<Rightarrow>
          if \<not> isResponsible t (actor_id usr) \<and> \<not> actor_isAdmin usr
          then (Inl (403, NoPermission), s)
          else
            let updateData =
                  (if completed'
                   then (\<lambda>x. x\<lparr>completed := completed', completedAt := Some now,
                                verificationStatus := Pending\<rparr>)
                   else (\<lambda>x. x\<lparr>completed := completed', completedAt := None,
                                verificationStatus := Pending, verifications := []\<rparr>));
                s' = s\<lparr>tasks := save taskId updateData (tasks s)\<rparr>
            in (case findById (tasks s') taskId of
                  None \<Rightarrow> (Inl (404, TaskNotFound), s')
                | Some updatedTask \<Rightarrow> (Inr updatedTask, s')))"

section \<open>Swaps\<close>

text \<open>\<open>task.swapRequests.id(requestId)\<close>: the embedded request with that id, if any.\<close>

definition requestById :: "swap_request list \<Rightarrow> request_id \<Rightarrow> swap_request option" where
  "requestById rs i = find (\<lambda>r. request_id r = i) rs"

text \<open>Assigning \<open>swapRequest.status\<close> on the request found by \<open>id\<close>.\<close>

fun setRequestStatus :: "request_id \<Rightarrow> swap_status \<Rightarrow> swap_request list \<Rightarrow> swap_request list" where
  "setRequestStatus i st [] = []"
| "setRequestStatus i st (r # rs) =
     (if request_id r = i then r\<lparr>status := st\<rparr> # rs else r # setRequestStatus i st rs)"

text \<open>
  The body of \<open>swapTasks\<close> for an Express request with \<open>body = {task1Id, task2Id}\<close>
  and \<open>user.id = userId\<close>. The answer holds the two tasks as read back after saving.
\<close>

definition directSwap ::
  "task_id \<Rightarrow> task_id \<Rightarrow> user_id \<Rightarrow> db \<Rightarrow> (error + task option \<times> task option) \<times> db" where
  "directSwap task1Id task2Id userId s =
     (case (findById (tasks s) task1Id, findById (tasks s) task2Id) of
        (Some task1, Some task2) \<Rightarrow>
          if \<not> isResponsible task1 userId \<and> \<not> isResponsible task2 userId
          then (Inl (403, NoPermission), s)
          else if completed task1 \<or> completed task2
          then (Inl (400, TasksAlreadyCompleted), s)
          else
            let s' = s\<lparr>tasks :=
                  save task2Id
                    (\<lambda>x. x\<lparr>responsibles := responsibles task1, temporaryResponsible := None\<rparr>)
                    (save task1Id
                      (\<lambda>x. x\<lparr>responsibles := responsibles task2, temporaryResponsible := None\<rparr>)
                      (tasks s))\<rparr>
            in (Inr (findById (tasks s') task1Id, findById (tasks s') task2Id), s')
      | _ \<Rightarrow> (Inl (404, TaskNotFound), s))"

text \<open>
  \<open>swapTasks\<close> is an Express handler \<open>(req, res)\<close>. JavaScript lets a caller pass it
  anything: a value that is not a request has no \<open>body\<close>, so destructuring
  \<open>req.body\<close> throws inside the \<open>try\<close>; the \<open>catch\<close> block then calls
  \<open>res.status(500)\<close>, which throws again when \<open>res\<close> is not a response, and the
  promise is rejected. With a request but no response the work is done and saved, and
  the first call on \<open>res\<close> throws in the same way.
\<close>

datatype handler_req = SwapRequestBody task_id task_id user_id | ObjectIdAsReq nat

datatype handler_res = Response | ObjectIdAsRes nat

datatype 'a outcome = Answered "error + 'a" | Thrown

definition swapTasks ::
  "handler_req \<Rightarrow> handler_res \<Rightarrow> db \<Rightarrow> (task option \<times> task option) outcome \<times> db" where
  "swapTasks req res s =
     (case req of
        ObjectIdAsReq _ \<Rightarrow>
          (case res of
             Response \<Rightarrow> (Answered (Inl (500, Exception)), s)
           | ObjectIdAsRes _ \<Rightarrow> (Thrown, s))
      | SwapRequestBody task1Id task2Id userId \<Rightarrow>
          (case directSwap task1Id task2Id userId s of
             (r, s') \<Rightarrow>
               (case res of
                  Response \<Rightarrow> (Answered r, s')
                | ObjectIdAsRes _ \<Rightarrow> (Thrown, s'))))"

text \<open>
  \<open>respondToSwapRequest\<close> calls \<open>swapTasks(task._id, swapRequest.targetTask)\<close>: two
  object ids where the handler expects a request and a response. A rejected promise
  makes \<open>await\<close> throw, and the handler's own \<open>catch\<close> answers 500.
\<close>

definition respondToSwapRequest ::
  "task_id \<Rightarrow> request_id \<Rightarrow> bool \<Rightarrow> user_id \<Rightarrow> db \<Rightarrow> (error + task option) \<times> db" where
  "respondToSwapRequest taskId swapRequestId accept userId s =
     (case findById (tasks s) taskId of
        None \<Rightarrow> (Inl (404, TaskNotFound), s)
      | Some t \<Rightarrow>
          (case requestById (swapRequests t) swapRequestId of
             None \<Rightarrow> (Inl (404, RequestNotFound), s)
           | Some swapRequest \<Rightarrow>
               if \<not> isResponsible t userId then (Inl (403, NoPermission), s)
               else if accept
               then (case swapTasks (ObjectIdAsReq (task_id t))
                            (ObjectIdAsRes (targetTask swapRequest)) s of
                       (Thrown, s1) \<Rightarrow> (Inl (500, Exception), s1)
                     | (Answered _, s1) \<Rightarrow>
                         let s2 = s1\<lparr>tasks := save taskId
                               (\<lambda>x. x\<lparr>swapRequests :=
                                  setRequestStatus swapRequestId SwapAccepted (swapRequests x)\<rparr>)
                               (tasks s1)\<rparr>
                         in (Inr (findById (tasks s2) taskId), s2))
               else
                 let s2 = s\<lparr>tasks := save taskId
                       (\<lambda>x. x\<lparr>swapRequests :=
                          setRequestStatus swapRequestId SwapRejected (swapRequests x)\<rparr>)
                       (tasks s)\<rparr>
                 in (Inr (findById (tasks s2) taskId), s2)))"

text \<open>
  \<open>CleaningTask.countDocuments({swapRequests: {$elemMatch: {requestedBy, status:
  'pending'}}})\<close>: the number of tasks that hold at least one pending request of the
  user.
\<close>

definition countPendingDocuments :: "user_id \<Rightarrow> task list \<Rightarrow> nat" where
  "countPendingDocuments userId ts =
     length (filter (\<lambda>t. \<exists>r \<in> set (swapRequests t).
        requestedBy r = userId \<and> status r = SwapPending) ts)"

definition createSwapRequest ::
  "task_id \<Rightarrow> task_id \<Rightarrow> user_id \<Rightarrow> jsdate \<Rightarrow> db \<Rightarrow> (error + task) \<times> db" where
  "createSwapRequest requestedTaskId offeredTaskId userId now s =
     (case (findById (tasks s) requestedTaskId, findById (tasks s) offeredTaskId) of
        (Some requestedTask, Some offeredTask) \<Rightarrow>
          if \<not> isResponsible offeredTask userId then (Inl (403, NoPermission), s)
          else if find (\<lambda>r. status r = SwapPending \<and> targetTask r = offeredTaskId
                            \<and> requestedBy r = userId) (swapRequests requestedTask) \<noteq> None
          then (Inl (400, DuplicateRequest), s)
          else if 3 \<le> countPendingDocuments userId (tasks s)
          then (Inl (400, TooManyPendingRequests), s)
          else
            let request = \<lparr>request_id = nextId s, requestedBy = userId,
                  targetTask = offeredTaskId, status = SwapPending, createdAt = now\<rparr>;
                requestedTask' =
                  requestedTask\<lparr>swapRequests := swapRequests requestedTask @ [request]\<rparr>
            in (Inr requestedTask',
                s\<lparr>tasks := save requestedTaskId
                     (\<lambda>x. x\<lparr>swapRequests := swapRequests requestedTask'\<rparr>) (tasks s),
                  nextId := nextId s + 1\<rparr>)
      | _ \<Rightarrow> (Inl (404, TaskNotFound), s))"

definition acceptSwapRequest ::
  "request_id \<Rightarrow> user_id \<Rightarrow> db \<Rightarrow> (error + task) \<times> db" where
  "acceptSwapRequest requestId userId s =
     (case find (\<lambda>t. requestId \<in> set (map request_id (swapRequests t))) (tasks s) of
        None \<Rightarrow> (Inl (404, RequestNotFound), s)
      | Some t \<Rightarrow>
          (case requestById (swapRequests t) requestId of
             None \<Rightarrow> (Inl (400, InvalidRequest), s)
           | Some swapRequest \<Rightarrow>
               if status swapRequest \<noteq> SwapPending then (Inl (400, InvalidRequest), s)
               else if \<not> isResponsible t userId then (Inl (403, NoPermission), s)
               else
                 (case findById (tasks s) (targetTask swapRequest) of
                    None \<Rightarrow> (Inl (404, OfferedTaskNotFound), s)
                  | Some offeredTask \<Rightarrow>
                      let t' = t\<lparr>responsibles := responsibles offeredTask,
                                 temporaryResponsible := None,
                                 swapRequests :=
                                   setRequestStatus requestId SwapAccepted (swapRequests t)\<rparr>
                      in (Inr t',
                          s\<lparr>tasks :=
                            save (task_id offeredTask)
                              (\<lambda>x. x\<lparr>responsibles := responsibles t,
                                      temporaryResponsible := None\<rparr>)
                              (save (task_id t)
                                (\<lambda>x. x\<lparr>responsibles := responsibles t',
                                        temporaryResponsible := None,
                                        swapRequests := swapRequests t'\<rparr>)
                                (tasks s))\<rparr>))))"

section \<open>Numbers\<close>

text \<open>
  A JavaScript number is an IEEE 754 double. A finite double is modelled by the real
  number it denotes, and every arithmetic operation returns the exact result rounded to
  the nearest double, a tie going to the even significand (\<open>toDouble\<close>): 53
  significant bits, and below \<open>2^-1022\<close> the fixed spacing \<open>2^-1074\<close> of the
  subnormal numbers. Infinities and NaN are not modelled; the controller's numbers stay
  far from the overflow threshold and it never divides by zero.

  \<open>bitLength n\<close> is the number of binary digits of a positive integer, and
  \<open>binaryExponent x\<close> is the integer \<open>e\<close> with \<open>2^e \<le> |x| < 2^(e+1)\<close>.
\<close>

function bitLength :: "int \<Rightarrow> nat" where
  "bitLength n = (if n \<le> 0 then 0 else Suc (bitLength (n div 2)))"
  by pat_completeness auto
termination
  by (relation "measure nat") auto

declare bitLength.simps [simp del]

definition binaryExponent :: "real \<Rightarrow> int" where
  "binaryExponent x =
     (if 1 \<le> \<bar>x\<bar> then int (bitLength \<lfloor>\<bar>x\<bar>\<rfloor>) - 1
      else - int (bitLength (\<lceil>1 / \<bar>x\<bar>\<rceil> - 1)))"

definition twoTo :: "int \<Rightarrow> real" where
  "twoTo k = (if 0 \<le> k then 2 ^ nat k else 1 / 2 ^ nat (- k))"

definition roundHalfEven :: "real \<Rightarrow> int" where
  "roundHalfEven q =
     (let f = \<lfloor>q\<rfloor>; d = q - of_int f
      in if d < 1 / 2 then f
         else if 1 / 2 < d then f + 1
         else if even f then f else f + 1)"

definition toDouble :: "real \<Rightarrow> real" where
  "toDouble x =
     (if x = 0 then 0
      else let ulp = twoTo (max (binaryExponent x) (- 1022) - 52)
           in of_int (roundHalfEven (x / ulp)) * ulp)"

text \<open>The operators \<open>+\<close>, \<open>-\<close>, \<open>*\<close> and \<open>/\<close> of JavaScript.\<close>

definition fadd :: "real \<Rightarrow> real \<Rightarrow> real" where
  "fadd a b = toDouble (a + b)"

definition fsub :: "real \<Rightarrow> real \<Rightarrow> real" where
  "fsub a b = toDouble (a - b)"

definition fmul :: "real \<Rightarrow> real \<Rightarrow> real" where
  "fmul a b = toDouble (a * b)"

definition fdiv :: "real \<Rightarrow> real \<Rightarrow> real" where
  "fdiv a b = toDouble (a / b)"

section \<open>User metrics\<close>

text \<open>
  The metrics object of one user. \<open>currentWorkload\<close> and \<open>tasksAssigned\<close> do not exist
  until the rotation sets them; every read of them is \<open>|| 0\<close>, so their absence is the
  value 0. The inert \<open>preferences\<close> field is left out.
\<close>

record user_metrics =
  totalHistoricalTasks :: nat
  completedTasks :: nat
  incompleteOrRejectedTasks :: nat
  completionRate :: real
  lastAssignedAreas :: "(string \<times> jsdate) list"
  areaAssignmentCounts :: "(string \<times> nat) list"
  currentWorkload :: nat
  tasksAssigned :: nat

type_synonym metrics_map = "(user_id \<times> user_metrics) list"

definition initialMetrics :: user_metrics where
  "initialMetrics =
     \<lparr>totalHistoricalTasks = 0, completedTasks = 0, incompleteOrRejectedTasks = 0,
      completionRate = 1, lastAssignedAreas = [], areaAssignmentCounts = [],
      currentWorkload = 0, tasksAssigned = 0\<rparr>"

text \<open>
  \<open>totalHistoricalTasks++\<close> and the \<open>if (wasCompleted) ... else if (wasRejected ||
  task.completed === false)\<close> chain, which the responsibles and the temporary
  responsible share.
\<close>

definition creditCompletion :: "task \<Rightarrow> user_metrics \<Rightarrow> user_metrics" where
  "creditCompletion t m =
     (let wasCompleted = (completed t \<and> verificationStatus t = Approved);
          wasRejected = (completed t \<and> verificationStatus t = Rejected);
          m1 = m\<lparr>totalHistoricalTasks := totalHistoricalTasks m + 1\<rparr>
      in if wasCompleted then m1\<lparr>completedTasks := completedTasks m1 + 1\<rparr>
         else if wasRejected \<or> completed t = False
         then m1\<lparr>incompleteOrRejectedTasks := incompleteOrRejectedTasks m1 + 1\<rparr>
         else m1)"

text \<open>The latest end date and the assignment count of the task's area.\<close>

definition recordArea :: "task \<Rightarrow> user_metrics \<Rightarrow> user_metrics" where
  "recordArea t m =
     m\<lparr>lastAssignedAreas :=
         (case map_of (lastAssignedAreas m) (area t) of
            None \<Rightarrow> AList.update (area t) (endDate t) (lastAssignedAreas m)
          | Some d \<Rightarrow>
              if timeValue d < timeValue (endDate t)
              then AList.update (area t) (endDate t) (lastAssignedAreas m)
              else lastAssignedAreas m),
       areaAssignmentCounts :=
         AList.update (area t)
           ((case map_of (areaAssignmentCounts m) (area t) of None \<Rightarrow> 0 | Some c \<Rightarrow> c) + 1)
           (areaAssignmentCounts m)\<rparr>"

text \<open>
  The body of \<open>task.responsibles.forEach\<close>: a user without metrics (not available) is
  skipped.
\<close>

definition creditResponsible :: "task \<Rightarrow> user_id \<Rightarrow> metrics_map \<Rightarrow> metrics_map" where
  "creditResponsible t userId metrics =
     AList.map_entry userId (\<lambda>m. recordArea t (creditCompletion t m)) metrics"

definition creditTemporary :: "task \<Rightarrow> metrics_map \<Rightarrow> metrics_map" where
  "creditTemporary t metrics =
     (case temporaryResponsible t of
        None \<Rightarrow> metrics
      | Some tempUserId \<Rightarrow> AList.map_entry tempUserId (creditCompletion t) metrics)"

definition analyseTask :: "task \<Rightarrow> metrics_map \<Rightarrow> metrics_map" where
  "analyseTask t metrics = creditTemporary t (fold (creditResponsible t) (responsibles t) metrics)"

definition setCompletionRate :: "user_metrics \<Rightarrow> user_metrics" where
  "setCompletionRate m =
     (let totalEvaluable = completedTasks m + incompleteOrRejectedTasks m
      in if 0 < totalEvaluable
         then m\<lparr>completionRate := fdiv (real (completedTasks m)) (real totalEvaluable)\<rparr>
         else m)"

definition calculateUserMetrics :: "task list \<Rightarrow> user list \<Rightarrow> metrics_map" where
  "calculateUserMetrics taskHistory availableUsers =
     map (\<lambda>(userId, m). (userId, setCompletionRate m))
       (fold analyseTask taskHistory
          (fold (\<lambda>u metrics. AList.update (user_id u) initialMetrics metrics) availableUsers []))"

section \<open>Selecting responsibles and verifiers\<close>

record area_info =
  info_area :: string
  peopleNeeded :: nat
  difficulty :: nat

text \<open>
  \<open>Math.max(...Object.values(userMetrics).map(m => m.totalHistoricalTasks || 0))\<close>.
  The counts are not negative and the score is only computed for a user found in
  \<open>userMetrics\<close>, so the maximum of the counts and 0 is the same number.
\<close>

definition maxHistoricalTasks :: "metrics_map \<Rightarrow> nat" where
  "maxHistoricalTasks userMetrics = fold max (map (\<lambda>(u, m). totalHistoricalTasks m) userMetrics) 0"

text \<open>The literals \<open>0.2\<close>, \<open>0.3\<close> and \<open>0.1\<close>: the doubles nearest to these decimals.\<close>

definition double_0_2 :: real where
  "double_0_2 = toDouble (2 / 10)"

definition double_0_3 :: real where
  "double_0_3 = toDouble (3 / 10)"

definition double_0_1 :: real where
  "double_0_1 = toDouble (1 / 10)"

text \<open>
  The score of one user, lines 268-293, operation by operation in the order
  JavaScript evaluates them. The counters are integers far below \<open>2^53\<close>, which doubles hold
  exactly. The clock read by \<open>new Date()\<close> is the parameter \<open>today\<close>; the difference
  of two dates is the difference of their time values.
\<close>

definition userScore :: "string \<Rightarrow> jsdate \<Rightarrow> metrics_map \<Rightarrow> real \<Rightarrow> user_metrics \<Rightarrow> real" where
  "userScore a today userMetrics targetWorkload m =
     (let daysSinceLastAssignment =
            (case map_of (lastAssignedAreas m) a of
               Some d \<Rightarrow>
                 \<lfloor>fdiv (fsub (of_int (timeValue today)) (of_int (timeValue d)))
                    (of_int msPerDay)\<rfloor>
             | None \<Rightarrow> 365);
          areaAssignmentCount = (case map_of (areaAssignmentCounts m) a of Some c \<Rightarrow> c | None \<Rightarrow> 0);
          workloadDifference = fsub targetWorkload (real (currentWorkload m));
          completionRateBonus = fmul (completionRate m) 3;
          maxTotal = maxHistoricalTasks userMetrics;
          totalTasksRatio =
            fdiv (real (totalHistoricalTasks m)) (real (if maxTotal = 0 then 1 else maxTotal))
      in fadd
           (fadd
              (fadd
                 (fadd (fmul (of_int daysSinceLastAssignment) (double_0_2))
                       (fmul (fsub 10 (real areaAssignmentCount)) (double_0_2)))
                 (fmul workloadDifference (double_0_3)))
              (fmul completionRateBonus (double_0_2)))
           (fmul (fsub 1 totalTasksRatio) (double_0_1)))"

text \<open>
  \<open>availableUsers.map(...)\<close>: reading a field of \<open>userMetrics[userId]\<close> throws a
  TypeError when the user has no metrics; \<open>None\<close> is that exception.
\<close>

fun scoreUsers ::
  "string \<Rightarrow> jsdate \<Rightarrow> metrics_map \<Rightarrow> real \<Rightarrow> user list \<Rightarrow> (user_id \<times> real) list option" where
  "scoreUsers a today userMetrics targetWorkload [] = Some []"
| "scoreUsers a today userMetrics targetWorkload (u # us) =
     (case map_of userMetrics (user_id u) of
        None \<Rightarrow> None
      | Some m \<Rightarrow>
          (case scoreUsers a today userMetrics targetWorkload us of
             None \<Rightarrow> None
           | Some scored \<Rightarrow>
               Some ((user_id u, userScore a today userMetrics targetWorkload m) # scored)))"

text \<open>
  The loop \<open>for (i = 0; i < peopleNeeded; i++) if (scoredUsers.length > 0) push(shift())\<close>.
\<close>

fun shiftBest :: "nat \<Rightarrow> 'a list \<Rightarrow> 'a list" where
  "shiftBest 0 xs = []"
| "shiftBest (Suc n) [] = shiftBest n []"
| "shiftBest (Suc n) (x # xs) = x # shiftBest n xs"

text \<open>
  \<open>Array.prototype.sort\<close> is stable, and so is \<open>sort_key\<close>. The comparator
  \<open>b.score - a.score\<close> is negative, zero or positive as the exact difference is (two
  different doubles never have the difference 0), so sorting by it is sorting by the
  negated score.
\<close>

definition selectResponsiblesForArea ::
  "area_info \<Rightarrow> user list \<Rightarrow> metrics_map \<Rightarrow> real \<Rightarrow> jsdate \<Rightarrow> user_id list option" where
  "selectResponsiblesForArea areaInfo availableUsers userMetrics targetWorkload today =
     (case scoreUsers (info_area areaInfo) today userMetrics targetWorkload availableUsers of
        None \<Rightarrow> None
      | Some scoredUsers \<Rightarrow>
          Some (map fst (shiftBest (peopleNeeded areaInfo)
                  (sort_key (\<lambda>(userId, score). - score) scoredUsers))))"

text \<open>\<open>userMetrics[id]?.completionRate || 0\<close>.\<close>

definition completionRateOf :: "metrics_map \<Rightarrow> user_id \<Rightarrow> real" where
  "completionRateOf userMetrics userId =
     (case map_of userMetrics userId of Some m \<Rightarrow> completionRate m | None \<Rightarrow> 0)"

definition selectVerifiers :: "user_id list \<Rightarrow> user list \<Rightarrow> metrics_map \<Rightarrow> user_id list" where
  "selectVerifiers responsibles' availableUsers userMetrics =
     (let potentialVerifiers = filter (\<lambda>u. user_id u \<notin> set responsibles') availableUsers
      in if length potentialVerifiers < 3
         then take (min 3 (length availableUsers))
                (sort_key (\<lambda>userId. - completionRateOf userMetrics userId)
                   (map user_id availableUsers))
         else map user_id
                (take 3 (sort_key (\<lambda>u. - completionRateOf userMetrics (user_id u))
                   potentialVerifiers)))"

section \<open>Rotation\<close>

definition areaConfig :: "area_info list" where
  "areaConfig =
     [\<lparr>info_area = ''Ba'' @ [CHR 0xF1] @ ''o 1'', peopleNeeded = 1, difficulty = 2\<rparr>,
      \<lparr>info_area = ''Ba'' @ [CHR 0xF1] @ ''o 2'', peopleNeeded = 1, difficulty = 2\<rparr>,
      \<lparr>info_area = ''Ba'' @ [CHR 0xF1] @ ''o 3'', peopleNeeded = 1, difficulty = 2\<rparr>,
      \<lparr>info_area = ''Terraza y Escaleras'', peopleNeeded = 2, difficulty = 3\<rparr>,
      \<lparr>info_area = ''Orden de Cocina'', peopleNeeded = 1, difficulty = 1\<rparr>,
      \<lparr>info_area = ''Cocina y Living'', peopleNeeded = 2, difficulty = 4\<rparr>,
      \<lparr>info_area = ''Basura'', peopleNeeded = 1, difficulty = 1\<rparr>,
      \<lparr>info_area = ''Cortar el pasto'', peopleNeeded = 2, difficulty = 3\<rparr>]"

text \<open>
  The body of \<open>responsibles.forEach\<close> in the rotation (lines 134-139). Every selected
  id was scored, so it has metrics.
\<close>

definition assignStep :: "area_info \<Rightarrow> jsdate \<Rightarrow> user_metrics \<Rightarrow> user_metrics" where
  "assignStep areaInfo now m =
     m\<lparr>currentWorkload := currentWorkload m + difficulty areaInfo,
       tasksAssigned := tasksAssigned m + 1,
       lastAssignedAreas := AList.update (info_area areaInfo) now (lastAssignedAreas m)\<rparr>"

definition assignArea :: "area_info \<Rightarrow> jsdate \<Rightarrow> user_id \<Rightarrow> metrics_map \<Rightarrow> metrics_map" where
  "assignArea areaInfo now userId userMetrics =
     AList.map_entry userId (assignStep areaInfo now) userMetrics"

text \<open>
  \<open>new CleaningTask({area, frequency, responsibles, startDate, endDate, verifiers})\<close>;
  the other fields take the defaults of a task nobody has touched.
\<close>

definition newCleaningTask ::
  "task_id \<Rightarrow> string \<Rightarrow> string \<Rightarrow> user_id list \<Rightarrow> jsdate \<Rightarrow> jsdate \<Rightarrow> user_id list \<Rightarrow> task" where
  "newCleaningTask i a freq rs start end' vs =
     \<lparr>task_id = i, area = a, frequency = freq, responsibles = rs,
      temporaryResponsible = None, startDate = start, endDate = end',
      verifiers = vs, completed = False, completedAt = None,
      verificationStatus = Pending, verifications = [], swapRequests = []\<rparr>"

text \<open>
  The loop over \<open>prioritizedAreas\<close> (lines 119-153), threading \<open>userMetrics\<close> and the
  next object id. The run is taken to happen at the instant \<open>now\<close>.
\<close>

fun assignAreas ::
  "area_info list \<Rightarrow> user list \<Rightarrow> real \<Rightarrow> jsdate \<Rightarrow> nat \<Rightarrow> metrics_map \<Rightarrow> task list option" where
  "assignAreas [] availableUsers targetWorkload now i userMetrics = Some []"
| "assignAreas (areaInfo # rest) availableUsers targetWorkload now i userMetrics =
     (let freq = frequencyOf (info_area areaInfo);
          endDate' = calculateEndDate now freq
      in case selectResponsiblesForArea areaInfo availableUsers userMetrics targetWorkload now of
           None \<Rightarrow> None
         | Some rs \<Rightarrow>
             let userMetrics' = fold (assignArea areaInfo now) rs userMetrics;
                 vs = selectVerifiers rs availableUsers userMetrics'
             in (case assignAreas rest availableUsers targetWorkload now (Suc i) userMetrics' of
                   None \<Rightarrow> None
                 | Some ts \<Rightarrow>
                     Some (newCleaningTask i (info_area areaInfo) freq rs now endDate' vs # ts)))"

text \<open>
  \<open>rotateAssignments\<close>. An exception after \<open>deleteMany\<close> is answered with 500 by the
  handler's \<open>catch\<close>, the tasks already deleted.
\<close>

definition rotateAssignments :: "jsdate \<Rightarrow> db \<Rightarrow> (error + task list) \<times> db" where
  "rotateAssignments now s =
     (let availableUsers = filter availableNextWeek (users s)
      in if length availableUsers < 2 then (Inl (400, InsufficientUsers), s)
         else
           let taskHistory = sort_key (\<lambda>t. - timeValue (endDate t)) (tasks s);
               userMetrics = calculateUserMetrics taskHistory availableUsers;
               s1 = s\<lparr>tasks := []\<rparr>;
               totalDifficulty = fold (\<lambda>a sum. sum + difficulty a * peopleNeeded a) areaConfig 0;
               targetWorkloadPerUser = fdiv (real totalDifficulty) (real (length availableUsers));
               userMetrics0 =
                 fold (\<lambda>u. AList.map_entry (user_id u) (\<lambda>m. m\<lparr>currentWorkload := 0\<rparr>))
                   availableUsers userMetrics;
               prioritizedAreas = sort_key (\<lambda>a. - int (difficulty a)) areaConfig
           in case assignAreas prioritizedAreas availableUsers targetWorkloadPerUser now
                     (nextId s1) userMetrics0 of
                None \<Rightarrow> (Inl (500, Exception), s1)
              | Some newTasks \<Rightarrow>
                  let s2 = s1\<lparr>tasks := tasks s1 @ newTasks,
                              nextId := nextId s1 + length newTasks\<rparr>
                  in (Inr (tasks s2), s2))"

section \<open>Auxiliary notions for the statements and proofs\<close>

text \<open>
  What the analysis of one task does to the metrics of one user: one
  \<open>responsibleStep\<close> for each time the user is listed among the responsibles, then the
  completion credit once more if the user is the temporary responsible.
\<close>

definition responsibleStep :: "task \<Rightarrow> user_metrics \<Rightarrow> user_metrics" where
  "responsibleStep t m = recordArea t (creditCompletion t m)"

definition userStep :: "task \<Rightarrow> user_id \<Rightarrow> user_metrics \<Rightarrow> user_metrics" where
  "userStep t u m =
     (if temporaryResponsible t = Some u then creditCompletion t else (\<lambda>x. x))
       ((responsibleStep t ^^ count_list (responsibles t) u) m)"





text \<open>
  The score of a user by id, for stating how the selected users rank: the score of the
  user's metrics (0 for an id without metrics, which the selection never scores).
\<close>

definition scoreFor :: "string \<Rightarrow> jsdate \<Rightarrow> metrics_map \<Rightarrow> real \<Rightarrow> user_id \<Rightarrow> real" where
  "scoreFor a today userMetrics targetWorkload userId =
     (case map_of userMetrics userId of
        Some m \<Rightarrow> userScore a today userMetrics targetWorkload m
      | None \<Rightarrow> 0)"

text \<open>A task as the rotation creates it: started now, untouched since.\<close>

definition freshTask :: "jsdate \<Rightarrow> task \<Rightarrow> bool" where
  "freshTask now t =
     (startDate t = now \<and> \<not> completed t \<and> verificationStatus t = Pending
      \<and> verifications t = [] \<and> swapRequests t = [] \<and> temporaryResponsible t = None)"

text \<open>
  One calendar month after a date, as the words say it: the same day of the following
  month, or the last day of that month when it has no such day. This is the reading
  against which \<open>calculateEndDate\<close> is compared; the program does not use it.
\<close>

definition plusOneCalendarMonth :: "jsdate \<Rightarrow> jsdate" where
  "plusOneCalendarMonth dt =
     (case nextMonth (year dt, month dt) of (y, m) \<Rightarrow>
        dt\<lparr>year := y, month := m, date := min (date dt) (DaysInMonth y m)\<rparr>)"

section \<open>Sample data\<close>

text \<open>Concrete dates, tasks and databases on which the theorems are instantiated.\<close>

definition jan15 :: jsdate where
  "jan15 = \<lparr>year = 2024, month = 0, date = 15, timeInDay = 0\<rparr>"

definition jan31 :: jsdate where
  "jan31 = \<lparr>year = 2024, month = 0, date = 31, timeInDay = 0\<rparr>"

definition completedTask :: "user_id list \<Rightarrow> verification list \<Rightarrow> task" where
  "completedTask vs votes =
     \<lparr>task_id = 1, area = ''Basura'', frequency = ''weekly'', responsibles = [1],
      temporaryResponsible = None, startDate = jan15, endDate = jan15,
      verifiers = vs, completed = True, completedAt = Some jan15,
      verificationStatus = Pending, verifications = votes, swapRequests = []\<rparr>"

definition oneTaskDb :: "task \<Rightarrow> db" where
  "oneTaskDb t = \<lparr>users = [], tasks = [t], nextId = 2\<rparr>"

text \<open>
  Users 10 and 11 are the verifiers of the completed task 1, on which nobody has voted.
\<close>

definition votingDb :: db where
  "votingDb =
     \<lparr>users = [\<lparr>user_id = 1, fullName = ''Ana'', availableNextWeek = True\<rparr>,
               \<lparr>user_id = 10, fullName = ''Eva'', availableNextWeek = True\<rparr>,
               \<lparr>user_id = 11, fullName = ''Luis'', availableNextWeek = True\<rparr>],
      tasks = [completedTask [10, 11] []],
      nextId = 2\<rparr>"

definition plainTask :: "task_id \<Rightarrow> user_id list \<Rightarrow> task" where
  "plainTask i rs =
     \<lparr>task_id = i, area = ''Basura'', frequency = ''weekly'', responsibles = rs,
      temporaryResponsible = None, startDate = jan15, endDate = jan15,
      verifiers = [], completed = False, completedAt = None,
      verificationStatus = Pending, verifications = [], swapRequests = []\<rparr>"

definition pendingRequest :: "request_id \<Rightarrow> user_id \<Rightarrow> task_id \<Rightarrow> swap_request" where
  "pendingRequest i u target =
     \<lparr>request_id = i, requestedBy = u, targetTask = target, status = SwapPending,
      createdAt = jan15\<rparr>"

text \<open>
  Task 1 is completed, held by user 9 with user 8 as temporary responsible; user 7
  holds task 2 and has asked for task 1 in exchange (request 100).
\<close>

definition swapDb :: db where
  "swapDb =
     \<lparr>users = [],
      tasks = [(plainTask 1 [9])\<lparr>temporaryResponsible := Some 8, completed := True,
                 swapRequests := [pendingRequest 100 7 2]\<rparr>,
               plainTask 2 [7]],
      nextId = 101\<rparr>"

text \<open>User 9 holds task 1; user 7 holds tasks 2 to 5; nobody has asked for anything.\<close>

definition ceilingDb :: db where
  "ceilingDb =
     \<lparr>users = [],
      tasks = [plainTask 1 [9], plainTask 2 [7], plainTask 3 [7], plainTask 4 [7],
               plainTask 5 [7]],
      nextId = 100\<rparr>"

text \<open>
  Two available users and four past tasks: user 1 was responsible for an approved, a
  rejected and a completed but unverified task; user 2 was temporary responsible of
  the first and responsible for a task that was never completed.
\<close>

definition metricsUsers :: "user list" where
  "metricsUsers =
     [\<lparr>user_id = 1, fullName = ''Ana'', availableNextWeek = True\<rparr>,
      \<lparr>user_id = 2, fullName = ''Luis'', availableNextWeek = True\<rparr>]"

definition metricsHistory :: "task list" where
  "metricsHistory =
     [(plainTask 1 [1])\<lparr>temporaryResponsible := Some 2, completed := True,
         verificationStatus := Approved\<rparr>,
      (plainTask 2 [1])\<lparr>completed := True, verificationStatus := Rejected\<rparr>,
      (plainTask 3 [2])\<lparr>area := ''Orden de Cocina''\<rparr>,
      (plainTask 4 [1])\<lparr>completed := True\<rparr>]"


text \<open>
  Metrics of the two sample users whose scores for \<open>Basura\<close> on 2024-01-31 with
  target workload 7 are both 21/5 in exact arithmetic: user 1 had the area 1 day ago
  and carries workload 1, user 2 had it 4 days ago and carries workload 3.
\<close>

definition tieMetrics :: metrics_map where
  "tieMetrics =
     [(1, \<lparr>totalHistoricalTasks = 2, completedTasks = 0, incompleteOrRejectedTasks = 0,
           completionRate = 1,
           lastAssignedAreas = [(''Basura'', \<lparr>year = 2024, month = 0, date = 30, timeInDay = 0\<rparr>)],
           areaAssignmentCounts = [(''Basura'', 2)], currentWorkload = 1, tasksAssigned = 1\<rparr>),
      (2, \<lparr>totalHistoricalTasks = 2, completedTasks = 0, incompleteOrRejectedTasks = 0,
           completionRate = 1,
           lastAssignedAreas = [(''Basura'', \<lparr>year = 2024, month = 0, date = 27, timeInDay = 0\<rparr>)],
           areaAssignmentCounts = [(''Basura'', 2)], currentWorkload = 3, tasksAssigned = 1\<rparr>)]"

text \<open>An area needing one person, and a database with the sample users and history.\<close>

definition basuraArea :: area_info where
  "basuraArea = \<lparr>info_area = ''Basura'', peopleNeeded = 1, difficulty = 1\<rparr>"

definition rotationDb :: db where
  "rotationDb = \<lparr>users = metricsUsers, tasks = metricsHistory, nextId = 5\<rparr>"

section \<open>End dates\<close>

lemma DaysInMonth_pos: "0 < DaysInMonth y m"
  by (simp add: DaysInMonth_def)

lemma DaysInMonth_bounds: "28 \<le> DaysInMonth y m \<and> DaysInMonth y m \<le> 31"
  by (simp add: DaysInMonth_def)

lemma carryDays_in_month:
  "d \<le> DaysInMonth y m \<Longrightarrow> carryDays y m d = (y, m, d)"
  by (subst carryDays.simps) simp

lemma carryDays_over:
  "DaysInMonth y m < d \<Longrightarrow>
   carryDays y m d =
     carryDays (fst (nextMonth (y, m))) (snd (nextMonth (y, m))) (d - DaysInMonth y m)"
  by (subst carryDays.simps) simp

lemma MakeDay_month:
  "m < 12 \<Longrightarrow> 1 \<le> d \<Longrightarrow> MakeDay y m d = carryDays y m d"
  by (simp add: MakeDay_def)

lemma validDate_setDate:
  "validDate dt \<Longrightarrow> setDate dt (date dt) = dt"
  by (simp add: validDate_def setDate_def MakeDay_month carryDays_in_month)

text \<open>One more day asked of \<open>carryDays\<close> is one step to the next calendar day.\<close>

lemma carryDays_Suc:
  "1 \<le> d \<Longrightarrow>
   carryDays y m (Suc d) =
     (case carryDays y m d of (y', m', d') \<Rightarrow>
        if d' < DaysInMonth y' m' then (y', m', d' + 1)
        else (case nextMonth (y', m') of (y'', m'') \<Rightarrow> (y'', m'', 1)))"
proof (induction y m d rule: carryDays.induct)
  case (1 y m d)
  show ?case
  proof (cases "DaysInMonth y m < d")
    case True
    then have "1 \<le> d - DaysInMonth y m" by simp
    from "1.IH"[OF True this] True show ?thesis
      by (simp add: carryDays_over Suc_diff_le)
  next
    case False
    show ?thesis
    proof (cases "d < DaysInMonth y m")
      case True
      then show ?thesis by (simp add: carryDays_in_month)
    next
      case False
      with \<open>\<not> DaysInMonth y m < d\<close> have eq: "d = DaysInMonth y m" by simp
      have "carryDays y m (Suc d) = carryDays (fst (nextMonth (y, m))) (snd (nextMonth (y, m))) 1"
        using eq by (simp add: carryDays_over)
      also have "\<dots> = (fst (nextMonth (y, m)), snd (nextMonth (y, m)), 1)"
        using DaysInMonth_pos[of "fst (nextMonth (y, m))" "snd (nextMonth (y, m))"]
        by (simp add: carryDays_in_month)
      finally show ?thesis using eq
        by (simp add: carryDays_in_month split: prod.splits)
    qed
  qed
qed

lemma setDate_Suc:
  assumes "month dt < 12" "1 \<le> d"
  shows "setDate dt (Suc d) = nextDay (setDate dt d)"
proof -
  obtain y m d' where c: "carryDays (year dt) (month dt) d = (y, m, d')"
    by (cases "carryDays (year dt) (month dt) d") auto
  show ?thesis
    using assms c carryDays_Suc[of d "year dt" "month dt"]
    by (simp add: setDate_def MakeDay_month nextDay_def split: prod.splits)
qed

lemma setDate_add:
  assumes "validDate dt"
  shows "setDate dt (date dt + k) = (nextDay ^^ k) dt"
proof (induction k)
  case 0
  show ?case using assms by (simp add: validDate_setDate)
next
  case (Suc k)
  have "month dt < 12" "1 \<le> date dt + k" using assms by (simp_all add: validDate_def)
  from setDate_Suc[OF this] Suc show ?case by simp
qed

lemma setMonth_next:
  assumes "validDate dt"
  shows "setMonth dt (month dt + 1) =
     (case nextMonth (year dt, month dt) of (y, m) \<Rightarrow>
        if date dt \<le> DaysInMonth y m then dt\<lparr>year := y, month := m\<rparr>
        else (case nextMonth (y, m) of (y', m') \<Rightarrow>
                dt\<lparr>year := y', month := m', date := date dt - DaysInMonth y m\<rparr>))"
proof -
  have m: "month dt < 12" and d: "1 \<le> date dt" "date dt \<le> 31"
    using assms DaysInMonth_bounds[of "year dt" "month dt"] by (simp_all add: validDate_def)
  have mk: "MakeDay (year dt) (month dt + 1) (date dt) =
     carryDays (fst (nextMonth (year dt, month dt))) (snd (nextMonth (year dt, month dt))) (date dt)"
  proof (cases "month dt = 11")
    case True
    then show ?thesis using d by (simp add: MakeDay_def nextMonth_def)
  next
    case False
    then have "month dt + 1 < 12" using m by simp
    then show ?thesis using d False by (simp add: MakeDay_def nextMonth_def)
  qed
  obtain y mm where nm: "nextMonth (year dt, month dt) = (y, mm)"
    by (cases "nextMonth (year dt, month dt)") auto
  show ?thesis
  proof (cases "date dt \<le> DaysInMonth y mm")
    case True
    then show ?thesis using mk nm by (simp add: setMonth_def carryDays_in_month)
  next
    case False
    have "date dt - DaysInMonth y mm \<le> DaysInMonth (fst (nextMonth (y, mm))) (snd (nextMonth (y, mm)))"
      using d DaysInMonth_bounds[of y mm]
        DaysInMonth_bounds[of "fst (nextMonth (y, mm))" "snd (nextMonth (y, mm))"] by linarith
    then show ?thesis using False mk nm
      by (simp add: setMonth_def carryDays_over carryDays_in_month split: prod.splits)
  qed
qed

lemma frequencyOf_cases:
  "frequencyOf a =
     (if a = ''Cortar el pasto'' then ''monthly''
      else if a = ''Terraza y Escaleras'' then ''biweekly'' else ''weekly'')"
  by (simp add: frequencyOf_def taskFrequencies_def)

lemma nextMonth_changes_month: "snd (nextMonth (y, m)) \<noteq> m"
  by (simp add: nextMonth_def)

text \<open>
  The monthly end date is one calendar month after the start exactly when the
  following month has the start's day of the month.
\<close>

lemma setMonth_plusOneCalendarMonth:
  assumes "validDate dt"
  shows "(setMonth dt (month dt + 1) = plusOneCalendarMonth dt)
     = (date dt \<le> DaysInMonth (fst (nextMonth (year dt, month dt)))
                                (snd (nextMonth (year dt, month dt))))"
proof -
  obtain y m where nm: "nextMonth (year dt, month dt) = (y, m)"
    by (cases "nextMonth (year dt, month dt)") auto
  obtain y' m' where nm': "nextMonth (y, m) = (y', m')"
    by (cases "nextMonth (y, m)") auto
  have diff: "m' \<noteq> m" using nextMonth_changes_month[of y m] nm' by simp
  show ?thesis
  proof (cases "date dt \<le> DaysInMonth y m")
    case True
    then show ?thesis
      using setMonth_next[OF assms] nm by (simp add: plusOneCalendarMonth_def min_def)
  next
    case False
    have "month (setMonth dt (month dt + 1)) = m'"
      using setMonth_next[OF assms] nm nm' False by simp
    moreover have "month (plusOneCalendarMonth dt) = m"
      using nm by (simp add: plusOneCalendarMonth_def)
    ultimately have "setMonth dt (month dt + 1) \<noteq> plusOneCalendarMonth dt"
      using diff by auto
    then show ?thesis using False nm by simp
  qed
qed

text \<open>
  C5. From a start date that names a calendar day, the end date of an area's task is:
  when the area's frequency is monthly, the same day of the following month if that
  month has such a day, and otherwise the day of the month after it reached by
  carrying the days that the following month lacks, as \<open>setMonth\<close> does; so it is one
  calendar month after the start exactly when the following month has the start's day
  of the month. When the frequency is biweekly, it is the fourteenth calendar day
  after the start; in every other case the seventh. \<open>Cortar el pasto\<close> is monthly,
  \<open>Terraza y Escaleras\<close> biweekly and every other area weekly, so from 2024-01-15 the
  end dates are 2024-02-15, 2024-01-29 and, for any other area, 2024-01-22.
\<close>

theorem calculateEndDate_by_frequency:
  assumes "validDate start"
  shows "(frequencyOf a = ''monthly'' \<longrightarrow>
        calculateEndDate start (frequencyOf a) =
          (case nextMonth (year start, month start) of (y, m) \<Rightarrow>
             if date start \<le> DaysInMonth y m then start\<lparr>year := y, month := m\<rparr>
             else (case nextMonth (y, m) of (y', m') \<Rightarrow>
                     start\<lparr>year := y', month := m', date := date start - DaysInMonth y m\<rparr>)))
    \<and> (frequencyOf a = ''monthly'' \<longrightarrow>
        (calculateEndDate start (frequencyOf a) = plusOneCalendarMonth start)
          = (date start \<le> DaysInMonth (fst (nextMonth (year start, month start)))
                                       (snd (nextMonth (year start, month start)))))
    \<and> (frequencyOf a = ''biweekly'' \<longrightarrow>
        calculateEndDate start (frequencyOf a) = (nextDay ^^ 14) start)
    \<and> (frequencyOf a \<noteq> ''monthly'' \<and> frequencyOf a \<noteq> ''biweekly'' \<longrightarrow>
        calculateEndDate start (frequencyOf a) = (nextDay ^^ 7) start)
    \<and> (frequencyOf a = ''monthly'') = (a = ''Cortar el pasto'')
    \<and> (frequencyOf a = ''biweekly'') = (a = ''Terraza y Escaleras'')
    \<and> (frequencyOf a = ''weekly'') = (a \<noteq> ''Cortar el pasto'' \<and> a \<noteq> ''Terraza y Escaleras'')
    \<and> calculateEndDate jan15 (frequencyOf ''Cortar el pasto'') = jan15\<lparr>month := 1\<rparr>
    \<and> calculateEndDate jan15 (frequencyOf ''Terraza y Escaleras'') = jan15\<lparr>date := 29\<rparr>
    \<and> (a \<noteq> ''Cortar el pasto'' \<and> a \<noteq> ''Terraza y Escaleras'' \<longrightarrow>
        calculateEndDate jan15 (frequencyOf a) = jan15\<lparr>date := 22\<rparr>)"
proof -
  have monthly: "calculateEndDate start ''monthly'' =
          (case nextMonth (year start, month start) of (y, m) \<Rightarrow>
             if date start \<le> DaysInMonth y m then start\<lparr>year := y, month := m\<rparr>
             else (case nextMonth (y, m) of (y', m') \<Rightarrow>
                     start\<lparr>year := y', month := m', date := date start - DaysInMonth y m\<rparr>))"
    using setMonth_next[OF assms] by (simp add: calculateEndDate_def)
  have calendar: "(calculateEndDate start ''monthly'' = plusOneCalendarMonth start)
          = (date start \<le> DaysInMonth (fst (nextMonth (year start, month start)))
                                       (snd (nextMonth (year start, month start))))"
    using setMonth_plusOneCalendarMonth[OF assms] by (simp add: calculateEndDate_def)
  have biweekly: "calculateEndDate start ''biweekly'' = (nextDay ^^ 14) start"
    using setDate_add[OF assms, of 14] by (simp add: calculateEndDate_def)
  have weekly: "f \<noteq> ''monthly'' \<Longrightarrow> f \<noteq> ''biweekly'' \<Longrightarrow>
      calculateEndDate start f = (nextDay ^^ 7) start" for f
    using setDate_add[OF assms, of 7] by (simp add: calculateEndDate_def)
  have names: "(frequencyOf a = ''monthly'') = (a = ''Cortar el pasto'')"
    "(frequencyOf a = ''biweekly'') = (a = ''Terraza y Escaleras'')"
    "(frequencyOf a = ''weekly'') = (a \<noteq> ''Cortar el pasto'' \<and> a \<noteq> ''Terraza y Escaleras'')"
    by (simp_all add: frequencyOf_cases)
  have v: "validDate jan15"
    by (simp add: validDate_def jan15_def DaysInMonth_def)
  have s1: "calculateEndDate jan15 (frequencyOf ''Cortar el pasto'') = jan15\<lparr>month := 1\<rparr>"
    using setMonth_next[OF v]
    by (simp add: frequencyOf_cases calculateEndDate_def jan15_def nextMonth_def DaysInMonth_def)
  have s2: "calculateEndDate jan15 (frequencyOf ''Terraza y Escaleras'') = jan15\<lparr>date := 29\<rparr>"
    using setDate_add[OF v, of 14]
    by (simp add: frequencyOf_cases calculateEndDate_def jan15_def nextDay_def DaysInMonth_def
        eval_nat_numeral)
  have s3: "a \<noteq> ''Cortar el pasto'' \<and> a \<noteq> ''Terraza y Escaleras'' \<longrightarrow>
         calculateEndDate jan15 (frequencyOf a) = jan15\<lparr>date := 22\<rparr>"
    using setDate_add[OF v, of 7]
    by (simp add: frequencyOf_cases calculateEndDate_def jan15_def nextDay_def DaysInMonth_def
        eval_nat_numeral)
  have m: "frequencyOf a = ''monthly'' \<longrightarrow>
        calculateEndDate start (frequencyOf a) =
          (case nextMonth (year start, month start) of (y, m) \<Rightarrow>
             if date start \<le> DaysInMonth y m then start\<lparr>year := y, month := m\<rparr>
             else (case nextMonth (y, m) of (y', m') \<Rightarrow>
                     start\<lparr>year := y', month := m', date := date start - DaysInMonth y m\<rparr>))"
    using monthly by simp
  have c: "frequencyOf a = ''monthly'' \<longrightarrow>
        (calculateEndDate start (frequencyOf a) = plusOneCalendarMonth start)
          = (date start \<le> DaysInMonth (fst (nextMonth (year start, month start)))
                                       (snd (nextMonth (year start, month start))))"
    using calendar by simp
  have b: "frequencyOf a = ''biweekly'' \<longrightarrow>
        calculateEndDate start (frequencyOf a) = (nextDay ^^ 14) start"
    using biweekly by simp
  have w: "frequencyOf a \<noteq> ''monthly'' \<and> frequencyOf a \<noteq> ''biweekly'' \<longrightarrow>
        calculateEndDate start (frequencyOf a) = (nextDay ^^ 7) start"
    using weekly[of "frequencyOf a"] by simp
  show ?thesis
    by (intro conjI m c b w names s1 s2 s3)
qed

theorem calculateEndDate_by_frequency_witness:
  "validDate \<lparr>year = 2023, month = 11, date = 30, timeInDay = 0\<rparr>
   \<and> calculateEndDate \<lparr>year = 2023, month = 11, date = 30, timeInDay = 0\<rparr>
        (frequencyOf ''Cortar el pasto'') = \<lparr>year = 2024, month = 0, date = 30, timeInDay = 0\<rparr>
   \<and> calculateEndDate \<lparr>year = 2023, month = 11, date = 30, timeInDay = 0\<rparr>
        (frequencyOf ''Cortar el pasto'')
       = plusOneCalendarMonth \<lparr>year = 2023, month = 11, date = 30, timeInDay = 0\<rparr>
   \<and> calculateEndDate \<lparr>year = 2023, month = 11, date = 30, timeInDay = 0\<rparr>
        (frequencyOf ''Terraza y Escaleras'')
       = \<lparr>year = 2024, month = 0, date = 13, timeInDay = 0\<rparr>
   \<and> calculateEndDate \<lparr>year = 2023, month = 11, date = 30, timeInDay = 0\<rparr>
        (frequencyOf ''Basura'') = \<lparr>year = 2024, month = 0, date = 6, timeInDay = 0\<rparr>
   \<and> validDate jan31
   \<and> calculateEndDate jan31 (frequencyOf ''Terraza y Escaleras'') = jan31\<lparr>month := 1, date := 14\<rparr>
   \<and> calculateEndDate jan31 (frequencyOf ''Basura'') = jan31\<lparr>month := 1, date := 7\<rparr>"
proof -
  define dec30 where "dec30 = \<lparr>year = 2023, month = 11, date = 30, timeInDay = 0\<rparr>"
  have v: "validDate dec30"
    by (simp add: validDate_def dec30_def DaysInMonth_def)
  have v': "validDate jan31"
    by (simp add: validDate_def jan31_def DaysInMonth_def)
  have 1: "calculateEndDate dec30 (frequencyOf ''Cortar el pasto'')
      = \<lparr>year = 2024, month = 0, date = 30, timeInDay = 0\<rparr>"
    using calculateEndDate_by_frequency[OF v, of "''Cortar el pasto''"]
    by (simp add: frequencyOf_cases dec30_def nextMonth_def DaysInMonth_def)
  have 2: "calculateEndDate dec30 (frequencyOf ''Cortar el pasto'') = plusOneCalendarMonth dec30"
    using calculateEndDate_by_frequency[OF v, of "''Cortar el pasto''"]
    by (simp add: frequencyOf_cases dec30_def nextMonth_def DaysInMonth_def
        plusOneCalendarMonth_def)
  have 3: "calculateEndDate dec30 (frequencyOf ''Terraza y Escaleras'')
      = \<lparr>year = 2024, month = 0, date = 13, timeInDay = 0\<rparr>"
    using calculateEndDate_by_frequency[OF v, of "''Terraza y Escaleras''"]
    by (simp add: frequencyOf_cases dec30_def nextMonth_def nextDay_def DaysInMonth_def
        eval_nat_numeral)
  have 4: "calculateEndDate dec30 (frequencyOf ''Basura'')
      = \<lparr>year = 2024, month = 0, date = 6, timeInDay = 0\<rparr>"
    using calculateEndDate_by_frequency[OF v, of "''Basura''"]
    by (simp add: frequencyOf_cases dec30_def nextMonth_def nextDay_def DaysInMonth_def
        eval_nat_numeral)
  have 5: "calculateEndDate jan31 (frequencyOf ''Terraza y Escaleras'')
      = jan31\<lparr>month := 1, date := 14\<rparr>"
    using calculateEndDate_by_frequency[OF v', of "''Terraza y Escaleras''"]
    by (simp add: frequencyOf_cases jan31_def nextMonth_def nextDay_def DaysInMonth_def
        isLeapYear_def eval_nat_numeral)
  have 6: "calculateEndDate jan31 (frequencyOf ''Basura'') = jan31\<lparr>month := 1, date := 7\<rparr>"
    using calculateEndDate_by_frequency[OF v', of "''Basura''"]
    by (simp add: frequencyOf_cases jan31_def nextMonth_def nextDay_def DaysInMonth_def
        isLeapYear_def eval_nat_numeral)
  show ?thesis
    using v v' 1 2 3 4 5 6 unfolding dec30_def by simp
qed

text \<open>
  From 2024-01-31 the monthly end date is 2024-03-02: February 2024 has 29 days, and
  \<open>setMonth\<close> carries the two days it lacks into March. One calendar month after
  2024-01-31 is a day of February, 2024-02-29.
\<close>

theorem monthly_end_date_skips_february:
  "frequencyOf ''Cortar el pasto'' = ''monthly''
   \<and> calculateEndDate jan31 (frequencyOf ''Cortar el pasto'')
       = \<lparr>year = 2024, month = 2, date = 2, timeInDay = 0\<rparr>
   \<and> plusOneCalendarMonth jan31 = \<lparr>year = 2024, month = 1, date = 29, timeInDay = 0\<rparr>
   \<and> calculateEndDate jan31 (frequencyOf ''Cortar el pasto'') \<noteq> plusOneCalendarMonth jan31"
proof -
  have c: "carryDays 2024 1 31 = (2024, 2, 2)"
    by (simp add: carryDays_over carryDays_in_month nextMonth_def DaysInMonth_def isLeapYear_def)
  have 1: "calculateEndDate jan31 (frequencyOf ''Cortar el pasto'')
       = \<lparr>year = 2024, month = 2, date = 2, timeInDay = 0\<rparr>"
    using c by (simp add: frequencyOf_cases calculateEndDate_def jan31_def setMonth_def MakeDay_def)
  have 2: "plusOneCalendarMonth jan31 = \<lparr>year = 2024, month = 1, date = 29, timeInDay = 0\<rparr>"
    by (simp add: plusOneCalendarMonth_def jan31_def nextMonth_def DaysInMonth_def isLeapYear_def)
  show ?thesis
    unfolding 1 2 by (simp add: frequencyOf_cases)
qed

section \<open>Verification votes\<close>

lemma findById_save:
  "(\<And>x. task_id (f x) = task_id x) \<Longrightarrow>
   findById (save i f ts) j = (if j = i then map_option f (findById ts j) else findById ts j)"
  by (induction ts) (auto simp: findById_def save_def)

lemma findById_task_id: "findById ts i = Some t \<Longrightarrow> task_id t = i"
  by (induction ts) (auto simp: findById_def split: if_splits)

lemma verifyTask_success:
  assumes "findById (tasks s) taskId = Some t" "completed t" "v \<in> set (verifiers t)"
  shows "verifyTask taskId v a c now s =
     (Inr (castVote t v a c now),
      s\<lparr>tasks := save taskId (\<lambda>x. x\<lparr>verifications := verifications (castVote t v a c now),
         verificationStatus := verificationStatus (castVote t v a c now)\<rparr>) (tasks s)\<rparr>)"
  using assms by (simp add: verifyTask_def Let_def list_ex_iff)

lemma verifyTask_Inr:
  assumes "findById (tasks s) taskId = Some t" "verifyTask taskId v a c now s = (Inr t', s')"
  shows "completed t \<and> v \<in> set (verifiers t)"
  using assms by (auto simp: verifyTask_def Let_def list_ex_iff split: if_splits)

lemma castVote_overwrites:
  "t\<lparr>verifications := verifications (castVote t v a c now),
     verificationStatus := verificationStatus (castVote t v a c now)\<rparr> = castVote t v a c now"
  by (simp add: castVote_def Let_def)

lemma castVote_fields:
  "verifiers (castVote t v a c now) = verifiers t"
  "completed (castVote t v a c now) = completed t"
  "verifications (castVote t v a c now) = verifications t @
     [\<lparr>verifier = v, approved = a, comment = c, verifiedAt = now\<rparr>]"
  by (simp_all add: castVote_def Let_def)

text \<open>
  A vote of a verifier of the roster on a completed task is always accepted, whether
  or not the verifier has voted before, and is stored on the task.
\<close>

lemma verifyTask_step:
  assumes "findById (tasks s) taskId = Some t" "completed t" "v \<in> set (verifiers t)"
  shows "\<exists>s'. verifyTask taskId v a c now s = (Inr (castVote t v a c now), s')
     \<and> findById (tasks s') taskId = Some (castVote t v a c now)"
  using verifyTask_success[OF assms] assms(1)
  by (simp add: findById_save castVote_overwrites)

lemma verifyTask_stored:
  assumes "findById (tasks s) taskId = Some t" "verifyTask taskId v a c now s = (Inr t', s')"
  shows "t' = castVote t v a c now \<and> findById (tasks s') taskId = Some t'"
proof -
  from verifyTask_Inr[OF assms]
  have pre: "completed t" "v \<in> set (verifiers t)" by simp_all
  from verifyTask_step[OF assms(1) pre, of a c now] assms(2) show ?thesis by auto
qed

text \<open>
  Among distinct verifiers, each voting at most once, as many votes as verifiers means
  that every verifier has voted.
\<close>

lemma all_voted_iff:
  assumes "distinct (vs :: nat list)" "distinct ws" "set ws \<subseteq> set vs"
  shows "(length ws = length vs) = (set ws = set vs)"
proof
  assume "length ws = length vs"
  then have "card (set ws) = card (set vs)" using assms by (simp add: distinct_card)
  then show "set ws = set vs" using assms(3) by (simp add: card_subset_eq)
next
  assume "set ws = set vs"
  then have "card (set ws) = card (set vs)" by simp
  then show "length ws = length vs" using assms by (simp add: distinct_card)
qed

text \<open>
  As long as no verifier votes a second time, the status after an accepted vote is the
  one the rule on the voters gives: with every verifier of the roster having voted,
  approved if approvals strictly outnumber rejections and rejected otherwise; with
  votes missing, approved or rejected as one side leads and in progress on a tie.
\<close>

lemma verifyTask_status_without_repeats:
  assumes found: "findById (tasks s) taskId = Some t"
    and roster: "distinct (verifiers t)"
    and votes: "distinct (map verifier (verifications t))"
      "set (map verifier (verifications t)) \<subseteq> set (verifiers t)"
    and first: "v \<notin> set (map verifier (verifications t))"
    and ok: "verifyTask taskId v a c now s = (Inr t', s')"
  shows "verifications t' = verifications t @
           [\<lparr>verifier = v, approved = a, comment = c, verifiedAt = now\<rparr>]
    \<and> verifiers t' = verifiers t \<and> verifiers t \<noteq> []
    \<and> verificationStatus t' =
        (let approvals = length (filter approved (verifications t'));
             rejections = length (filter (\<lambda>x. \<not> approved x) (verifications t'))
         in if set (map verifier (verifications t')) = set (verifiers t')
            then (if rejections < approvals then Approved else Rejected)
            else if rejections < approvals then Approved
            else if approvals < rejections then Rejected
            else InProgress)
    \<and> findById (tasks s') taskId = Some t'"
proof -
  from verifyTask_Inr[OF found ok] have pre: "v \<in> set (verifiers t)" by simp
  from verifyTask_stored[OF found ok]
  have t': "t' = castVote t v a c now" and st: "findById (tasks s') taskId = Some t'" by simp_all
  have vs: "verifications t' = verifications t @
           [\<lparr>verifier = v, approved = a, comment = c, verifiedAt = now\<rparr>]"
    and ro: "verifiers t' = verifiers t"
    unfolding t' by (simp_all add: castVote_fields)
  have ne: "verifiers t \<noteq> []" using pre by auto
  have d: "distinct (map verifier (verifications t'))"
    and sub: "set (map verifier (verifications t')) \<subseteq> set (verifiers t')"
    using pre first votes by (simp_all add: vs ro)
  have len: "(length (verifications t') = length (verifiers t'))
      = (set (map verifier (verifications t')) = set (verifiers t'))"
    using all_voted_iff[OF _ d sub] roster ro by simp
  have "verificationStatus t' =
      updateVerificationStatus (t\<lparr>verifications := verifications t'\<rparr>)"
    unfolding t' by (simp add: castVote_def Let_def)
  also have "t\<lparr>verifications := verifications t'\<rparr> = t'\<lparr>verificationStatus := verificationStatus t\<rparr>"
    unfolding t' by (simp add: castVote_def Let_def)
  finally have "verificationStatus t' =
        (let approvals = length (filter approved (verifications t'));
             rejections = length (filter (\<lambda>x. \<not> approved x) (verifications t'))
         in if set (map verifier (verifications t')) = set (verifiers t')
            then (if rejections < approvals then Approved else Rejected)
            else if rejections < approvals then Approved
            else if approvals < rejections then Rejected
            else InProgress)"
    using len by (simp add: updateVerificationStatus_def Let_def)
  then show ?thesis using vs ro ne st by blast
qed

text \<open>
  C2. On \<open>votingDb\<close> verifier 10 approves task 1 and then votes again, rejecting it.
  Both votes are accepted: the test for an earlier vote never finds one. The task then
  holds two votes of verifier 10 and none of verifier 11, one approval against one
  rejection, and since two votes are as many as the roster has verifiers the stored
  status is rejected. By the claim's rule the voting is incomplete and tied, which is
  in progress.
\<close>

theorem verifyTask_accepts_repeated_vote:
  "\<exists>t1 s1 t2 s2.
      verifyTask 1 10 True [] jan15 votingDb = (Inr t1, s1)
    \<and> verifyTask 1 10 False [] jan15 s1 = (Inr t2, s2)
    \<and> findById (tasks s2) 1 = Some t2
    \<and> verifiers t2 = [10, 11]
    \<and> map verifier (verifications t2) = [10, 10]
    \<and> map approved (verifications t2) = [True, False]
    \<and> set (map verifier (verifications t2)) \<noteq> set (verifiers t2)
    \<and> verificationStatus t2 = Rejected
    \<and> verificationStatus t2 \<noteq> InProgress"
  by (simp add: verifyTask_def votingDb_def completedTask_def findById_def save_def
      castVote_def updateVerificationStatus_def Let_def)




section \<open>Completion\<close>

lemma markAsCompleted_result:
  assumes "findById (tasks s) taskId = Some t"
    and "isResponsible t (actor_id usr) \<or> actor_isAdmin usr"
  shows "markAsCompleted taskId c usr now s =
     (let t' = (if c then t\<lparr>completed := True, completedAt := Some now,
                               verificationStatus := Pending\<rparr>
                else t\<lparr>completed := False, completedAt := None,
                         verificationStatus := Pending, verifications := []\<rparr>)
      in (Inr t', s\<lparr>tasks := save taskId (\<lambda>x. if c then x\<lparr>completed := True, completedAt := Some now,
                               verificationStatus := Pending\<rparr>
                else x\<lparr>completed := False, completedAt := None,
                         verificationStatus := Pending, verifications := []\<rparr>) (tasks s)\<rparr>))"
  using assms
  by (cases c) (auto simp: markAsCompleted_def Let_def findById_save)

text \<open>
  C10. On an existing task, for a caller allowed to update it (responsible, temporary
  responsible or administrator), \<open>markAsCompleted\<close> with \<open>completed = true\<close> sets the
  status to pending and the completion time to now and changes nothing else: the votes
  stay, whatever the task's status and votes were. With \<open>completed = false\<close> the votes
  are cleared as well. No other task changes.
\<close>

theorem markAsCompleted_keeps_votes:
  assumes found: "findById (tasks s) taskId = Some t"
    and perm: "isResponsible t (actor_id usr) \<or> actor_isAdmin usr"
  shows "(\<exists>s'. markAsCompleted taskId True usr now s =
            (Inr (t\<lparr>completed := True, completedAt := Some now,
                     verificationStatus := Pending\<rparr>), s')
          \<and> findById (tasks s') taskId =
              Some (t\<lparr>completed := True, completedAt := Some now,
                       verificationStatus := Pending\<rparr>)
          \<and> (\<forall>j. j \<noteq> taskId \<longrightarrow> findById (tasks s') j = findById (tasks s) j))
    \<and> verifications (t\<lparr>completed := True, completedAt := Some now,
                        verificationStatus := Pending\<rparr>) = verifications t
    \<and> (\<exists>s'. markAsCompleted taskId False usr now s =
            (Inr (t\<lparr>completed := False, completedAt := None,
                     verificationStatus := Pending, verifications := []\<rparr>), s')
          \<and> findById (tasks s') taskId =
              Some (t\<lparr>completed := False, completedAt := None,
                       verificationStatus := Pending, verifications := []\<rparr>)
          \<and> (\<forall>j. j \<noteq> taskId \<longrightarrow> findById (tasks s') j = findById (tasks s) j))"
proof -
  have marked: "\<exists>s'. markAsCompleted taskId True usr now s =
            (Inr (t\<lparr>completed := True, completedAt := Some now,
                     verificationStatus := Pending\<rparr>), s')
          \<and> findById (tasks s') taskId =
              Some (t\<lparr>completed := True, completedAt := Some now,
                       verificationStatus := Pending\<rparr>)
          \<and> (\<forall>j. j \<noteq> taskId \<longrightarrow> findById (tasks s') j = findById (tasks s) j)"
    using markAsCompleted_result[OF assms, of True now] found
    by (simp add: Let_def findById_save)
  have unmarked: "\<exists>s'. markAsCompleted taskId False usr now s =
            (Inr (t\<lparr>completed := False, completedAt := None,
                     verificationStatus := Pending, verifications := []\<rparr>), s')
          \<and> findById (tasks s') taskId =
              Some (t\<lparr>completed := False, completedAt := None,
                       verificationStatus := Pending, verifications := []\<rparr>)
          \<and> (\<forall>j. j \<noteq> taskId \<longrightarrow> findById (tasks s') j = findById (tasks s) j)"
    using markAsCompleted_result[OF assms, of False now] found
    by (simp add: Let_def findById_save)
  from marked unmarked show ?thesis by simp
qed

text \<open>
  A task already completed and approved by its two verifiers is marked completed
  again: the status returns to pending and both votes remain.
\<close>

theorem markAsCompleted_keeps_votes_witness:
  "\<exists>t' s'. markAsCompleted 1 True \<lparr>actor_id = 1, actor_isAdmin = False\<rparr> jan31
       (oneTaskDb ((completedTask [10, 11]
          [\<lparr>verifier = 10, approved = True, comment = [], verifiedAt = jan15\<rparr>,
           \<lparr>verifier = 11, approved = True, comment = [], verifiedAt = jan15\<rparr>])
          \<lparr>verificationStatus := Approved\<rparr>)) = (Inr t', s')
     \<and> verificationStatus t' = Pending \<and> completedAt t' = Some jan31
     \<and> map verifier (verifications t') = [10, 11]
     \<and> findById (tasks s') 1 = Some t'"
proof -
  define t where "t = (completedTask [10, 11]
          [\<lparr>verifier = 10, approved = True, comment = [], verifiedAt = jan15\<rparr>,
           \<lparr>verifier = 11, approved = True, comment = [], verifiedAt = jan15\<rparr>])
          \<lparr>verificationStatus := Approved\<rparr>"
  have found: "findById (tasks (oneTaskDb t)) 1 = Some t"
    by (simp add: oneTaskDb_def findById_def t_def completedTask_def)
  have perm: "isResponsible t (actor_id \<lparr>actor_id = 1, actor_isAdmin = False\<rparr>)
      \<or> actor_isAdmin \<lparr>actor_id = 1, actor_isAdmin = False\<rparr>"
    by (simp add: isResponsible_def t_def completedTask_def)
  from markAsCompleted_keeps_votes[OF found perm, of jan31]
  show ?thesis unfolding t_def[symmetric]
    by (auto simp: t_def completedTask_def)
qed

section \<open>Swap requests\<close>

lemma find_Some_mem: "find P xs = Some x \<Longrightarrow> x \<in> set xs \<and> P x"
  by (induction xs) (auto split: if_splits)

lemma findById_distinct:
  "distinct (map task_id ts) \<Longrightarrow> t \<in> set ts \<Longrightarrow> findById ts (task_id t) = Some t"
  by (induction ts) (auto simp: findById_def rev_image_eqI)

lemma requestById_setRequestStatus:
  "requestById rs i = Some r \<Longrightarrow>
   requestById (setRequestStatus i st rs) i = Some (r\<lparr>status := st\<rparr>)"
  by (induction rs) (auto simp: requestById_def)

text \<open>
  Accepting through \<open>respondToSwapRequest\<close> never changes the database and never
  answers with a task.
\<close>

lemma respondToSwapRequest_accept:
  "snd (respondToSwapRequest taskId rid True u s) = s
   \<and> isl (fst (respondToSwapRequest taskId rid True u s))"
  by (simp add: respondToSwapRequest_def swapTasks_def split: option.splits)

text \<open>
  Acceptance through \<open>acceptSwapRequest\<close>, whatever the completion of the two tasks:
  the responsibles are exchanged, both temporary responsibles are cleared and the
  request is accepted.
\<close>

lemma acceptSwapRequest_exchanges:
  assumes ids: "distinct (map task_id (tasks s))"
    and holder: "find (\<lambda>t. rid \<in> set (map request_id (swapRequests t))) (tasks s) = Some t1"
    and request: "requestById (swapRequests t1) rid = Some sr" "status sr = SwapPending"
    and perm: "isResponsible t1 u"
    and offered: "findById (tasks s) (targetTask sr) = Some t2"
    and pair: "task_id t1 \<noteq> task_id t2"
  shows "\<exists>t1' t2' s'.
      acceptSwapRequest rid u s = (Inr t1', s')
    \<and> findById (tasks s') (task_id t1) = Some t1'
    \<and> findById (tasks s') (task_id t2) = Some t2'
    \<and> responsibles t1' = responsibles t2 \<and> responsibles t2' = responsibles t1
    \<and> temporaryResponsible t1' = None \<and> temporaryResponsible t2' = None
    \<and> requestById (swapRequests t1') rid = Some (sr\<lparr>status := SwapAccepted\<rparr>)"
proof -
  from find_Some_mem[OF holder] have mem: "t1 \<in> set (tasks s)" by simp
  have f1: "findById (tasks s) (task_id t1) = Some t1"
    using findById_distinct[OF ids mem] .
  have id2: "targetTask sr = task_id t2" using findById_task_id[OF offered] by simp
  have f2: "findById (tasks s) (task_id t2) = Some t2" using offered id2 by simp
  define t1' where "t1' = t1\<lparr>responsibles := responsibles t2, temporaryResponsible := None,
      swapRequests := setRequestStatus rid SwapAccepted (swapRequests t1)\<rparr>"
  define t2' where "t2' = t2\<lparr>responsibles := responsibles t1, temporaryResponsible := None\<rparr>"
  define s' where "s' = s\<lparr>tasks :=
      save (task_id t2) (\<lambda>x. x\<lparr>responsibles := responsibles t1, temporaryResponsible := None\<rparr>)
        (save (task_id t1) (\<lambda>x. x\<lparr>responsibles := responsibles t1',
            temporaryResponsible := None, swapRequests := swapRequests t1'\<rparr>) (tasks s))\<rparr>"
  have acc: "acceptSwapRequest rid u s = (Inr t1', s')"
    using holder request perm offered
    by (simp add: acceptSwapRequest_def Let_def t1'_def s'_def)
  have g1: "findById (tasks s') (task_id t1) = Some t1'"
    using f1 pair by (simp add: s'_def findById_save t1'_def)
  have g2: "findById (tasks s') (task_id t2) = Some t2'"
    using f2 pair by (simp add: s'_def findById_save t2'_def)
  have "requestById (swapRequests t1') rid = Some (sr\<lparr>status := SwapAccepted\<rparr>)"
    using requestById_setRequestStatus[OF request(1)] by (simp add: t1'_def)
  then show ?thesis using acc g1 g2 by (auto simp: t1'_def t2'_def)
qed

text \<open>
  C9. Two different tasks, one of them at least completed, linked by a pending request
  that a responsible of the requested task accepts through \<open>acceptSwapRequest\<close>: the
  responsibles are exchanged, both temporary responsibles are cleared and the request
  is accepted, while \<open>swapTasks\<close> on the same two tasks by the same person answers 400
  and changes nothing.
\<close>

theorem acceptSwapRequest_ignores_completion:
  assumes ids: "distinct (map task_id (tasks s))"
    and holder: "find (\<lambda>t. rid \<in> set (map request_id (swapRequests t))) (tasks s) = Some t1"
    and request: "requestById (swapRequests t1) rid = Some sr" "status sr = SwapPending"
    and perm: "isResponsible t1 u"
    and offered: "findById (tasks s) (targetTask sr) = Some t2"
    and pair: "task_id t1 \<noteq> task_id t2"
    and compl: "completed t1 \<or> completed t2"
  shows "\<exists>t1' t2' s'.
      acceptSwapRequest rid u s = (Inr t1', s')
    \<and> findById (tasks s') (task_id t1) = Some t1'
    \<and> findById (tasks s') (task_id t2) = Some t2'
    \<and> responsibles t1' = responsibles t2 \<and> responsibles t2' = responsibles t1
    \<and> temporaryResponsible t1' = None \<and> temporaryResponsible t2' = None
    \<and> requestById (swapRequests t1') rid = Some (sr\<lparr>status := SwapAccepted\<rparr>)
    \<and> swapTasks (SwapRequestBody (task_id t1) (task_id t2) u) Response s
        = (Answered (Inl (400, TasksAlreadyCompleted)), s)"
proof -
  from find_Some_mem[OF holder] have mem: "t1 \<in> set (tasks s)" by simp
  have f1: "findById (tasks s) (task_id t1) = Some t1"
    using findById_distinct[OF ids mem] .
  have "targetTask sr = task_id t2" using findById_task_id[OF offered] by simp
  then have f2: "findById (tasks s) (task_id t2) = Some t2" using offered by simp
  have "swapTasks (SwapRequestBody (task_id t1) (task_id t2) u) Response s
        = (Answered (Inl (400, TasksAlreadyCompleted)), s)"
    using f1 f2 perm compl by (simp add: swapTasks_def directSwap_def)
  with acceptSwapRequest_exchanges[OF ids holder request perm offered pair]
  show ?thesis by blast
qed

theorem acceptSwapRequest_ignores_completion_witness:
  "\<exists>t1' t2' s'.
      acceptSwapRequest 100 9 swapDb = (Inr t1', s')
    \<and> findById (tasks s') 1 = Some t1' \<and> findById (tasks s') 2 = Some t2'
    \<and> completed t1'
    \<and> responsibles t1' = [7] \<and> responsibles t2' = [9]
    \<and> temporaryResponsible t1' = None \<and> temporaryResponsible t2' = None
    \<and> map status (swapRequests t1') = [SwapAccepted]
    \<and> swapTasks (SwapRequestBody 1 2 9) Response swapDb
        = (Answered (Inl (400, TasksAlreadyCompleted)), swapDb)"
proof -
  define t1 where "t1 = (plainTask 1 [9])\<lparr>temporaryResponsible := Some 8, completed := True,
                 swapRequests := [pendingRequest 100 7 2]\<rparr>"
  have "\<exists>t1' t2' s'.
      acceptSwapRequest 100 9 swapDb = (Inr t1', s')
    \<and> findById (tasks s') (task_id t1) = Some t1'
    \<and> findById (tasks s') (task_id (plainTask 2 [7])) = Some t2'
    \<and> responsibles t1' = responsibles (plainTask 2 [7]) \<and> responsibles t2' = responsibles t1
    \<and> temporaryResponsible t1' = None \<and> temporaryResponsible t2' = None
    \<and> requestById (swapRequests t1') 100 = Some ((pendingRequest 100 7 2)\<lparr>status := SwapAccepted\<rparr>)
    \<and> swapTasks (SwapRequestBody (task_id t1) (task_id (plainTask 2 [7])) 9) Response swapDb
        = (Answered (Inl (400, TasksAlreadyCompleted)), swapDb)"
    by (rule acceptSwapRequest_ignores_completion)
       (simp_all add: swapDb_def t1_def plainTask_def pendingRequest_def requestById_def
          isResponsible_def findById_def)
  then obtain t1' t2' s' where r: "acceptSwapRequest 100 9 swapDb = (Inr t1', s')"
    "findById (tasks s') (task_id t1) = Some t1'"
    "findById (tasks s') (task_id (plainTask 2 [7])) = Some t2'"
    "responsibles t1' = responsibles (plainTask 2 [7])" "responsibles t2' = responsibles t1"
    "temporaryResponsible t1' = None" "temporaryResponsible t2' = None"
    "swapTasks (SwapRequestBody (task_id t1) (task_id (plainTask 2 [7])) 9) Response swapDb
        = (Answered (Inl (400, TasksAlreadyCompleted)), swapDb)"
    by blast
  have "completed t1' \<and> map status (swapRequests t1') = [SwapAccepted]"
    using r(1)
    by (auto simp: acceptSwapRequest_def swapDb_def plainTask_def pendingRequest_def
        requestById_def isResponsible_def findById_def Let_def)
  with r show ?thesis
    by (auto simp: t1_def plainTask_def)
qed

text \<open>
  C3. On \<open>swapDb\<close>, user 9 accepts request 100 on task 1. Through
  \<open>respondToSwapRequest\<close> the answer is 500 and the database is unchanged: the
  responsibles are not exchanged and the request stays pending. Through
  \<open>acceptSwapRequest\<close> the same acceptance exchanges them and accepts the request.
\<close>

theorem respondToSwapRequest_accept_fails:
  "respondToSwapRequest 1 100 True 9 swapDb = (Inl (500, Exception), swapDb)
   \<and> map responsibles (tasks swapDb) = [[9], [7]]
   \<and> map (map status \<circ> swapRequests) (tasks swapDb) = [[SwapPending], []]
   \<and> (\<exists>t s'. acceptSwapRequest 100 9 swapDb = (Inr t, s')
        \<and> map responsibles (tasks s') = [[7], [9]]
        \<and> map (map status \<circ> swapRequests) (tasks s') = [[SwapAccepted], []])"
  by (simp add: respondToSwapRequest_def swapTasks_def acceptSwapRequest_def swapDb_def
      plainTask_def pendingRequest_def requestById_def isResponsible_def findById_def
      save_def Let_def)

text \<open>
  The ceiling does hold when the pending requests of the requester sit on three
  different tasks or more.
\<close>

lemma createSwapRequest_ceiling:
  assumes "findById (tasks s) requestedTaskId = Some requestedTask"
    and "findById (tasks s) offeredTaskId = Some offeredTask"
    and "3 \<le> countPendingDocuments userId (tasks s)"
  shows "\<exists>e. createSwapRequest requestedTaskId offeredTaskId userId now s = (Inl e, s)"
  using assms by (simp add: createSwapRequest_def)

text \<open>
  C7. On \<open>ceilingDb\<close> user 7 asks for task 1 four times, offering tasks 2, 3, 4 and 5
  in turn. After the third request three pending requests of user 7 are outstanding;
  they sit on one task, so the count of tasks holding one is 1 and the fourth request
  is added as well.
\<close>

theorem createSwapRequest_fourth_accepted:
  "\<exists>t1 s1 t2 s2 t3 s3 t4 s4.
      createSwapRequest 1 2 7 jan15 ceilingDb = (Inr t1, s1)
    \<and> createSwapRequest 1 3 7 jan15 s1 = (Inr t2, s2)
    \<and> createSwapRequest 1 4 7 jan15 s2 = (Inr t3, s3)
    \<and> length (filter (\<lambda>r. requestedBy r = 7 \<and> status r = SwapPending)
         (concat (map swapRequests (tasks s3)))) = 3
    \<and> createSwapRequest 1 5 7 jan15 s3 = (Inr t4, s4)
    \<and> length (filter (\<lambda>r. requestedBy r = 7 \<and> status r = SwapPending)
         (concat (map swapRequests (tasks s4)))) = 4"
  by (simp add: createSwapRequest_def ceilingDb_def plainTask_def findById_def
      isResponsible_def countPendingDocuments_def save_def Let_def)

section \<open>User metrics from the history\<close>

lemma map_of_creditResponsible:
  "map_of (creditResponsible t r ms) u =
     (if u = r then map_option (responsibleStep t) (map_of ms u) else map_of ms u)"
  by (auto simp: creditResponsible_def map_of_map_entry responsibleStep_def split: option.splits)

lemma map_of_fold_creditResponsible:
  "map_of (fold (creditResponsible t) rs ms) u =
     map_option (responsibleStep t ^^ count_list rs u) (map_of ms u)"
proof (induction rs arbitrary: ms)
  case Nil
  then show ?case by (simp add: option.map_ident)
next
  case (Cons r rs)
  show ?case
    by (cases "map_of ms u") (auto simp: Cons map_of_creditResponsible funpow_swap1)
qed

lemma map_of_analyseTask:
  "map_of (analyseTask t ms) u = map_option (userStep t u) (map_of ms u)"
  by (cases "map_of ms u")
     (auto simp: analyseTask_def creditTemporary_def map_of_map_entry
        map_of_fold_creditResponsible userStep_def split: option.splits)

lemma map_of_fold_analyseTask:
  "map_of (fold analyseTask h ms) u = map_option (fold (\<lambda>t. userStep t u) h) (map_of ms u)"
proof (induction h arbitrary: ms)
  case Nil
  then show ?case by (simp add: option.map_ident)
next
  case (Cons t h)
  show ?case by (cases "map_of ms u") (auto simp: Cons map_of_analyseTask)
qed



















lemma map_of_initial:
  "map_of (fold (\<lambda>u metrics. AList.update (user_id u) initialMetrics metrics) us acc) k =
     (if k \<in> set (map user_id us) then Some initialMetrics else map_of acc k)"
  by (induction us arbitrary: acc) (auto simp: update_conv')

lemma map_of_calculateUserMetrics:
  "map_of (calculateUserMetrics h us) u =
     (if u \<in> set (map user_id us)
      then Some (setCompletionRate (fold (\<lambda>t. userStep t u) h initialMetrics))
      else None)"
  by (simp add: calculateUserMetrics_def map_of_map map_of_fold_analyseTask map_of_initial)



section \<open>Rounding to doubles\<close>

lemma bitLength_bounds:
  "0 < n \<Longrightarrow> 2 ^ (bitLength n - 1) \<le> n \<and> n < 2 ^ bitLength n"
proof (induction n rule: bitLength.induct)
  case (1 n)
  show ?case
  proof (cases "n div 2 = 0")
    case True
    with 1(2) have n: "n = 1" by presburger
    have "bitLength (1::int) = 1"
      by (simp add: bitLength.simps[of 1] bitLength.simps[of 0])
    with n show ?thesis by simp
  next
    case False
    with 1(2) have pos: "0 < n div 2" by presburger
    from 1(1)[OF _ pos] 1(2)
    have ih: "2 ^ (bitLength (n div 2) - 1) \<le> n div 2" "n div 2 < 2 ^ bitLength (n div 2)"
      by simp_all
    have bl: "bitLength n = Suc (bitLength (n div 2))"
      using 1(2) by (subst bitLength.simps) simp
    have b1: "0 < bitLength (n div 2)"
      using pos by (subst bitLength.simps) simp
    then obtain k where k: "bitLength (n div 2) = Suc k" by (cases "bitLength (n div 2)") auto
    from ih k have "2 * 2 ^ k \<le> n" "n < 2 * 2 ^ Suc k" by simp_all
    then show ?thesis by (simp add: bl k)
  qed
qed

lemma bitLength_zero: "bitLength 0 = 0"
  by (subst bitLength.simps) simp

text \<open>\<open>binaryExponent x\<close> is the exponent of the binade of \<open>x\<close>.\<close>

lemma binaryExponent_bounds:
  assumes "x \<noteq> 0"
  shows "twoTo (binaryExponent x) \<le> \<bar>x\<bar> \<and> \<bar>x\<bar> < twoTo (binaryExponent x + 1)"
proof (cases "1 \<le> \<bar>x\<bar>")
  case True
  define n where "n = \<lfloor>\<bar>x\<bar>\<rfloor>"
  have "0 < \<lfloor>\<bar>x\<bar>\<rfloor>"
    using True by (simp add: less_floor_iff)
  then have n: "0 < n" "of_int n \<le> \<bar>x\<bar>" "\<bar>x\<bar> < of_int n + 1"
    using floor_correct[of "\<bar>x\<bar>"] by (simp_all add: n_def)
  from bitLength_bounds[OF n(1)]
  have b: "2 ^ (bitLength n - 1) \<le> n" "n + 1 \<le> 2 ^ bitLength n" by simp_all
  have pos: "0 < bitLength n" using n(1) by (subst bitLength.simps) simp
  have e: "binaryExponent x = int (bitLength n) - 1"
    using True by (simp add: binaryExponent_def n_def)
  have r1: "(2::real) ^ (bitLength n - 1) \<le> of_int n"
  proof -
    have "(of_int (2 ^ (bitLength n - 1)) :: real) \<le> of_int n"
      using b(1) by (simp only: of_int_le_iff)
    then show ?thesis by simp
  qed
  have r2: "of_int n + 1 \<le> (2::real) ^ bitLength n"
  proof -
    have "(of_int (n + 1) :: real) \<le> of_int (2 ^ bitLength n)"
      using b(2) by (simp only: of_int_le_iff)
    then show ?thesis by simp
  qed
  have lower: "(2::real) ^ (bitLength n - 1) \<le> \<bar>x\<bar>" using r1 n(2) by linarith
  have upper: "\<bar>x\<bar> < 2 ^ bitLength n" using r2 n(3) by linarith
  have "nat (int (bitLength n) - 1) = bitLength n - 1" by simp
  then have "twoTo (int (bitLength n) - 1) = 2 ^ (bitLength n - 1)"
    using pos by (simp add: twoTo_def)
  moreover have "twoTo (int (bitLength n) - 1 + 1) = 2 ^ bitLength n"
    by (simp add: twoTo_def)
  ultimately show ?thesis
    using lower upper by (simp only: e)
next
  case False
  then have lt: "\<bar>x\<bar> < 1" and pos: "0 < \<bar>x\<bar>" using assms by simp_all
  define k where "k = \<lceil>1 / \<bar>x\<bar>\<rceil> - 1"
  have inv: "1 < 1 / \<bar>x\<bar>" using lt pos by simp
  have "1 < \<lceil>1 / \<bar>x\<bar>\<rceil>"
    using inv by (simp add: less_ceiling_iff)
  then have k: "0 < k" "of_int k < 1 / \<bar>x\<bar>" "1 / \<bar>x\<bar> \<le> of_int k + 1"
    using ceiling_correct[of "1 / \<bar>x\<bar>"] by (simp_all add: k_def)
  from bitLength_bounds[OF k(1)]
  have b: "2 ^ (bitLength k - 1) \<le> k" "k + 1 \<le> 2 ^ bitLength k" by simp_all
  have bpos: "0 < bitLength k" using k(1) by (subst bitLength.simps) simp
  have e: "binaryExponent x = - int (bitLength k)"
    using False by (simp add: binaryExponent_def k_def)
  have r1: "(2::real) ^ (bitLength k - 1) \<le> of_int k"
  proof -
    have "(of_int (2 ^ (bitLength k - 1)) :: real) \<le> of_int k"
      using b(1) by (simp only: of_int_le_iff)
    then show ?thesis by simp
  qed
  have r2: "of_int k + 1 \<le> (2::real) ^ bitLength k"
  proof -
    have "(of_int (k + 1) :: real) \<le> of_int (2 ^ bitLength k)"
      using b(2) by (simp only: of_int_le_iff)
    then show ?thesis by simp
  qed
  have up: "1 / \<bar>x\<bar> \<le> 2 ^ bitLength k" using k(3) r2 by linarith
  have lo: "2 ^ (bitLength k - 1) < 1 / \<bar>x\<bar>" using k(2) r1 by linarith
  have lower: "1 / 2 ^ bitLength k \<le> \<bar>x\<bar>"
    using up pos by (simp add: field_simps)
  have upper: "\<bar>x\<bar> < 1 / 2 ^ (bitLength k - 1)"
    using lo pos by (simp add: field_simps)
  have "twoTo (- int (bitLength k)) = 1 / 2 ^ bitLength k"
    by (simp add: twoTo_def)
  moreover have "twoTo (- int (bitLength k) + 1) = 1 / 2 ^ (bitLength k - 1)"
  proof (cases "bitLength k = 1")
    case True
    then show ?thesis by (simp add: twoTo_def)
  next
    case False
    with bpos have "1 < bitLength k" by simp
    then have "nat (int (bitLength k) - 1) = bitLength k - 1" "\<not> int (bitLength k) \<le> 1"
      by simp_all
    then show ?thesis by (simp add: twoTo_def)
  qed
  ultimately show ?thesis using lower upper by (simp add: e)
qed

text \<open>Rounding to an integer moves a number by at most one half, and keeps an integer.\<close>

lemma roundHalfEven_near: "\<bar>of_int (roundHalfEven q) - q\<bar> \<le> 1 / 2"
  by (simp add: roundHalfEven_def Let_def)

lemma roundHalfEven_of_int: "roundHalfEven (of_int n) = n"
  by (simp add: roundHalfEven_def Let_def)

lemma twoTo_pos: "0 < twoTo k"
  by (simp add: twoTo_def)

text \<open>
  \<open>toDouble x\<close> is a multiple of the spacing of the doubles around \<open>x\<close> and lies within
  half that spacing of \<open>x\<close>.
\<close>

lemma toDouble_near:
  "\<bar>toDouble x - x\<bar> \<le> twoTo (max (binaryExponent x) (- 1022) - 52) / 2"
proof (cases "x = 0")
  case True
  then show ?thesis using twoTo_pos[of "max (binaryExponent 0) (- 1022) - 52"]
    by (simp add: toDouble_def)
next
  case False
  define ulp where "ulp = twoTo (max (binaryExponent x) (- 1022) - 52)"
  have pos: "0 < ulp" by (simp add: ulp_def twoTo_pos)
  have "toDouble x - x = (of_int (roundHalfEven (x / ulp)) - x / ulp) * ulp"
    using False pos by (simp add: toDouble_def ulp_def[symmetric] Let_def field_simps)
  then have "\<bar>toDouble x - x\<bar> = \<bar>of_int (roundHalfEven (x / ulp)) - x / ulp\<bar> * ulp"
    using pos by (simp add: abs_mult)
  also have "\<dots> \<le> 1 / 2 * ulp"
    using roundHalfEven_near[of "x / ulp"] pos by (intro mult_right_mono) simp_all
  finally show ?thesis by (simp add: ulp_def)
qed

text \<open>An integer below \<open>2^53\<close> in magnitude is a double.\<close>

lemma toDouble_of_int:
  assumes "\<bar>n\<bar> < 2 ^ 53"
  shows "toDouble (of_int n) = of_int n"
proof (cases "n = 0")
  case True
  then show ?thesis by (simp add: toDouble_def)
next
  case False
  define e where "e = binaryExponent (of_int n)"
  have one: "1 \<le> \<bar>real_of_int n\<bar>" using False by (simp flip: of_int_abs)
  have nonneg: "0 \<le> e"
  proof -
    have "0 < \<lfloor>\<bar>real_of_int n\<bar>\<rfloor>" using one by (simp add: less_floor_iff)
    then have "0 < bitLength \<lfloor>\<bar>real_of_int n\<bar>\<rfloor>" by (subst bitLength.simps) simp
    then show ?thesis using one by (simp add: e_def binaryExponent_def)
  qed
  have "twoTo e \<le> \<bar>real_of_int n\<bar>"
    using binaryExponent_bounds[of "of_int n"] False by (simp add: e_def)
  moreover have "\<bar>real_of_int n\<bar> < 2 ^ 53"
  proof -
    have "real_of_int \<bar>n\<bar> < real_of_int (2 ^ 53)" using assms by (simp only: of_int_less_iff)
    then show ?thesis by simp
  qed
  ultimately have "(2::real) ^ nat e < 2 ^ 53" using nonneg by (simp add: twoTo_def)
  then have "nat e < 53" by (simp only: power_strict_increasing_iff)
  then have small: "e \<le> 52" by simp
  define j where "j = nat (52 - e)"
  have ulp: "twoTo (max e (- 1022) - 52) = 1 / 2 ^ j"
  proof (cases "e = 52")
    case True
    then show ?thesis by (simp add: twoTo_def j_def)
  next
    case False
    with small have "e < 52" by simp
    then have "\<not> 0 \<le> e - 52" "nat (- (e - 52)) = j" by (simp_all add: j_def)
    moreover have "max e (- 1022) = e" using nonneg by simp
    ultimately show ?thesis by (simp add: twoTo_def)
  qed
  have "real_of_int n / (1 / 2 ^ j) = of_int (n * 2 ^ j)" by simp
  then have "roundHalfEven (real_of_int n / (1 / 2 ^ j)) = n * 2 ^ j"
    by (simp only: roundHalfEven_of_int)
  then show ?thesis
    using False ulp by (simp add: toDouble_def e_def[symmetric] Let_def)
qed

text \<open>The decimal literals of the score, and two sums that show the rounding.\<close>

lemma double_literals:
  "double_0_1 = 3602879701896397 / 36028797018963968"
  "double_0_2 = 3602879701896397 / 18014398509481984"
  "double_0_3 = 5404319552844595 / 18014398509481984"
  "fadd double_0_1 double_0_2 = 5404319552844596 / 18014398509481984"
  "toDouble 7 = 7"
  "toDouble 9007199254740993 = 9007199254740992"
  "toDouble 9007199254740995 = 9007199254740996"
  by (simp_all add: double_0_1_def double_0_2_def double_0_3_def fadd_def toDouble_def
      binaryExponent_def twoTo_def roundHalfEven_def bitLength.simps Let_def)

section \<open>Scores and the selection of responsibles\<close>

lemma shiftBest_take: "shiftBest n xs = take n xs"
  by (induction n xs rule: shiftBest.induct) simp_all

lemma maxHistoricalTasks_Max:
  "maxHistoricalTasks um = Max (insert 0 ((totalHistoricalTasks \<circ> snd) ` set um))"
proof -
  have "fold max (map (\<lambda>(u, m). totalHistoricalTasks m) um) 0
      = Max (set (0 # map (\<lambda>(u, m). totalHistoricalTasks m) um))"
    by (simp only: Max.set_eq_fold)
  also have "set (0 # map (\<lambda>(u, m). totalHistoricalTasks m) um)
      = insert 0 ((totalHistoricalTasks \<circ> snd) ` set um)"
    by (simp add: case_prod_unfold comp_def)
  finally show ?thesis by (simp add: maxHistoricalTasks_def)
qed

lemma fmul_commute: "fmul a b = fmul b a"
  by (simp add: fmul_def mult.commute)

lemma userScore_formula:
  "userScore a today um target m =
     fadd
       (fadd
          (fadd
             (fadd
                (fmul (double_0_2)
                   (case map_of (lastAssignedAreas m) a of
                      None \<Rightarrow> 365
                    | Some d \<Rightarrow>
                        real_of_int
                          \<lfloor>fdiv (fsub (of_int (timeValue today)) (of_int (timeValue d)))
                             (of_int msPerDay)\<rfloor>))
                (fmul (double_0_2)
                   (fsub 10 (real (case map_of (areaAssignmentCounts m) a of
                                     None \<Rightarrow> 0 | Some c \<Rightarrow> c)))))
             (fmul (double_0_3) (fsub target (real (currentWorkload m)))))
          (fmul (double_0_2) (fmul (completionRate m) 3)))
       (fmul (double_0_1)
          (fsub 1
             (fdiv (real (totalHistoricalTasks m))
                (real (max 1 (Max (insert 0 ((totalHistoricalTasks \<circ> snd) ` set um))))))))"
proof -
  have "(if maxHistoricalTasks um = 0 then 1 else maxHistoricalTasks um)
      = max 1 (Max (insert 0 ((totalHistoricalTasks \<circ> snd) ` set um)))"
    by (simp add: maxHistoricalTasks_Max max_def)
  then show ?thesis
    by (simp add: userScore_def Let_def fmul_commute[of _ double_0_2]
        fmul_commute[of _ double_0_3] fmul_commute[of _ double_0_1]
        split: option.splits)
qed

lemma scoreUsers_Some:
  "\<forall>u \<in> set us. map_of um (user_id u) \<noteq> None \<Longrightarrow>
   scoreUsers a today um target us =
     Some (map (\<lambda>u. (user_id u, scoreFor a today um target (user_id u))) us)"
  by (induction us) (auto simp: scoreFor_def)

lemma sort_key_top:
  fixes f :: "'a \<Rightarrow> real"
  assumes "x \<in> set (take k (sort_key f xs))" "y \<in> set (drop k (sort_key f xs))"
  shows "f x \<le> f y"
proof -
  have "sorted (map f (take k (sort_key f xs) @ drop k (sort_key f xs)))"
    by (simp only: append_take_drop_id sorted_sort_key)
  then have "sorted (map f (take k (sort_key f xs)) @ map f (drop k (sort_key f xs)))"
    by (simp only: map_append)
  then have "\<forall>a \<in> set (map f (take k (sort_key f xs))).
      \<forall>b \<in> set (map f (drop k (sort_key f xs))). a \<le> b"
    by (simp only: sorted_append) blast
  then show ?thesis using assms by (simp only: set_map) blast
qed

lemma selectResponsibles_ranked:
  assumes "\<forall>u \<in> set us. map_of um (user_id u) \<noteq> None"
  shows "\<exists>rs. selectResponsiblesForArea ai us um target today = Some rs
     \<and> length rs = min (peopleNeeded ai) (length us)
     \<and> set rs \<subseteq> set (map user_id us)
     \<and> (distinct (map user_id us) \<longrightarrow> distinct rs)
     \<and> sorted_wrt (\<lambda>x y. scoreFor (info_area ai) today um target y
                          \<le> scoreFor (info_area ai) today um target x) rs
     \<and> (\<forall>u \<in> set (map user_id us) - set rs. \<forall>r \<in> set rs.
           scoreFor (info_area ai) today um target u \<le> scoreFor (info_area ai) today um target r)"
proof -
  define sc where "sc = scoreFor (info_area ai) today um target"
  define scored where "scored = map (\<lambda>u. (user_id u, sc (user_id u))) us"
  define key where "key = (\<lambda>(userId :: user_id, score :: real). - score)"
  define srt where "srt = sort_key key scored"
  define rs where "rs = map fst (take (peopleNeeded ai) srt)"
  have sel: "selectResponsiblesForArea ai us um target today = Some rs"
    using scoreUsers_Some[OF assms, of "info_area ai" today target]
    by (simp add: selectResponsiblesForArea_def shiftBest_take rs_def srt_def key_def
        scored_def sc_def)
  have snd_sc: "snd p = sc (fst p)" if "p \<in> set srt" for p
    using that by (auto simp: srt_def scored_def)
  have keyp: "key p = - sc (fst p)" if "p \<in> set srt" for p
    using snd_sc[OF that] by (cases p) (simp add: key_def)
  have fst_srt: "mset (map fst srt) = mset (map user_id us)"
  proof -
    have "mset srt = mset scored" by (simp add: srt_def)
    then have "mset (map fst srt) = mset (map fst scored)" by (metis mset_map)
    then show ?thesis by (simp add: scored_def comp_def)
  qed
  have len: "length rs = min (peopleNeeded ai) (length us)"
    by (simp add: rs_def srt_def scored_def min.commute)
  have sub: "set rs \<subseteq> set (map user_id us)"
  proof -
    have "set rs \<subseteq> set (map fst srt)"
      unfolding rs_def by (metis set_take_subset take_map)
    then show ?thesis using fst_srt by (metis set_mset_mset)
  qed
  have dist: "distinct (map user_id us) \<longrightarrow> distinct rs"
  proof
    assume "distinct (map user_id us)"
    then have "distinct (map fst srt)" using fst_srt by (metis mset_eq_imp_distinct_iff)
    then show "distinct rs" unfolding rs_def by (metis distinct_take take_map)
  qed
  have "sorted (map key (take (peopleNeeded ai) srt))"
    unfolding srt_def by (metis sorted_sort_key sorted_wrt_take take_map)
  then have "sorted_wrt (\<lambda>p q. key p \<le> key q) (take (peopleNeeded ai) srt)"
    by (simp add: sorted_map)
  then have "sorted_wrt (\<lambda>p q. sc (fst q) \<le> sc (fst p)) (take (peopleNeeded ai) srt)"
  proof (rule sorted_wrt_mono_rel[rotated])
    fix p q assume "p \<in> set (take (peopleNeeded ai) srt)" "q \<in> set (take (peopleNeeded ai) srt)"
      "key p \<le> key q"
    then have "p \<in> set srt" "q \<in> set srt" "key p \<le> key q"
      by (auto dest: in_set_takeD)
    then show "sc (fst q) \<le> sc (fst p)"
      using keyp[of p] keyp[of q] by simp
  qed
  then have srt_rs: "sorted_wrt (\<lambda>x y. sc y \<le> sc x) rs"
    by (simp add: rs_def sorted_wrt_map)
  have top: "sc u \<le> sc r" if u: "u \<in> set (map user_id us) - set rs" and r: "r \<in> set rs" for u r
  proof -
    from r obtain p where p: "p \<in> set (take (peopleNeeded ai) srt)" "fst p = r"
      by (auto simp: rs_def)
    from u have "u \<in> set (map fst srt)" using fst_srt by (metis DiffD1 set_mset_mset)
    then obtain q where q: "q \<in> set srt" "fst q = u" by auto
    have "q \<notin> set (take (peopleNeeded ai) srt)" using u q(2) by (auto simp: rs_def)
    then have "q \<in> set (drop (peopleNeeded ai) srt)"
      using q(1) by (metis Un_iff append_take_drop_id set_append)
    from sort_key_top[OF p(1)[unfolded srt_def] this[unfolded srt_def]]
    have "key p \<le> key q" .
    moreover have "p \<in> set srt" using p(1) by (rule in_set_takeD)
    ultimately show ?thesis using keyp[of p] keyp[OF q(1)] p(2) q(2) by simp
  qed
  show ?thesis using sel len sub dist srt_rs top unfolding sc_def by blast
qed


lemma map_of_assignArea:
  "map_of (assignArea ai now r um) uid =
     (if uid = r then map_option (assignStep ai now) (map_of um uid) else map_of um uid)"
  by (auto simp: assignArea_def map_of_map_entry split: option.splits)

lemma map_of_fold_assignArea:
  "map_of (fold (assignArea ai now) rs um) uid =
     map_option (assignStep ai now ^^ count_list rs uid) (map_of um uid)"
proof (induction rs arbitrary: um)
  case Nil
  then show ?case by (simp add: option.map_ident)
next
  case (Cons r rs)
  show ?case
    by (cases "map_of um uid")
       (auto simp: Cons map_of_assignArea funpow_swap1)
qed

lemma currentWorkload_assignStep:
  "currentWorkload ((assignStep ai now ^^ k) m) = currentWorkload m + difficulty ai * k"
  by (induction k) (simp_all add: assignStep_def)

text \<open>
  C1. With metrics for every available user (as the rotation has them): the score of a
  user for an area is, in the arithmetic of doubles and in this order of operations,
  0.2 times the whole days since the last end date recorded for the area (365 when none
  is recorded) plus 0.2 times 10 minus the area's assignment count plus 0.3 times the
  target workload minus the current workload plus 0.2 times three times the completion
  rate plus 0.1 times one minus the user's historical total over the largest total in
  the metrics (over 1 when nobody has history). The responsibles are the first
  \<open>peopleNeeded\<close> users by this score, highest first (all of them when fewer are
  available): no user left out scores higher than a selected one. The loop then adds
  the area's difficulty to the current workload of each selected user and scores the
  remaining areas on these updated metrics.
\<close>

theorem selectResponsiblesForArea_score_and_rank:
  assumes "\<forall>u \<in> set availableUsers. map_of userMetrics (user_id u) \<noteq> None"
  shows "(\<forall>u m. map_of userMetrics u = Some m \<longrightarrow>
      scoreFor (info_area areaInfo) today userMetrics targetWorkload u =
     fadd
       (fadd
          (fadd
             (fadd
                (fmul (double_0_2)
                   (case map_of (lastAssignedAreas m) (info_area areaInfo) of
                      None \<Rightarrow> 365
                    | Some d \<Rightarrow>
                        real_of_int
                          \<lfloor>fdiv (fsub (of_int (timeValue today)) (of_int (timeValue d)))
                             (of_int msPerDay)\<rfloor>))
                (fmul (double_0_2)
                   (fsub 10 (real (case map_of (areaAssignmentCounts m) (info_area areaInfo) of
                                     None \<Rightarrow> 0 | Some c \<Rightarrow> c)))))
             (fmul (double_0_3) (fsub targetWorkload (real (currentWorkload m)))))
          (fmul (double_0_2) (fmul (completionRate m) 3)))
       (fmul (double_0_1)
          (fsub 1
             (fdiv (real (totalHistoricalTasks m))
                (real (max 1 (Max (insert 0 ((totalHistoricalTasks \<circ> snd) ` set userMetrics)))))))))
    \<and> (\<exists>rs. selectResponsiblesForArea areaInfo availableUsers userMetrics targetWorkload today
              = Some rs
          \<and> length rs = min (peopleNeeded areaInfo) (length availableUsers)
          \<and> set rs \<subseteq> set (map user_id availableUsers)
          \<and> (distinct (map user_id availableUsers) \<longrightarrow> distinct rs)
          \<and> sorted_wrt (\<lambda>x y. scoreFor (info_area areaInfo) today userMetrics targetWorkload y
                               \<le> scoreFor (info_area areaInfo) today userMetrics targetWorkload x) rs
          \<and> (\<forall>u \<in> set (map user_id availableUsers) - set rs. \<forall>r \<in> set rs.
                scoreFor (info_area areaInfo) today userMetrics targetWorkload u
                  \<le> scoreFor (info_area areaInfo) today userMetrics targetWorkload r)
          \<and> (\<forall>u m. map_of userMetrics u = Some m \<longrightarrow>
                (\<exists>m'. map_of (fold (assignArea areaInfo today) rs userMetrics) u = Some m'
                   \<and> currentWorkload m' = currentWorkload m + difficulty areaInfo * count_list rs u))
          \<and> assignAreas (areaInfo # rest) availableUsers targetWorkload today i userMetrics =
              map_option
                (\<lambda>ts. newCleaningTask i (info_area areaInfo) (frequencyOf (info_area areaInfo)) rs
                        today (calculateEndDate today (frequencyOf (info_area areaInfo)))
                        (selectVerifiers rs availableUsers
                           (fold (assignArea areaInfo today) rs userMetrics)) # ts)
                (assignAreas rest availableUsers targetWorkload today (Suc i)
                   (fold (assignArea areaInfo today) rs userMetrics)))"
proof -
  from selectResponsibles_ranked[OF assms, of areaInfo targetWorkload today]
  obtain rs where rs:
    "selectResponsiblesForArea areaInfo availableUsers userMetrics targetWorkload today = Some rs"
    "length rs = min (peopleNeeded areaInfo) (length availableUsers)"
    "set rs \<subseteq> set (map user_id availableUsers)"
    "distinct (map user_id availableUsers) \<longrightarrow> distinct rs"
    "sorted_wrt (\<lambda>x y. scoreFor (info_area areaInfo) today userMetrics targetWorkload y
                               \<le> scoreFor (info_area areaInfo) today userMetrics targetWorkload x) rs"
    "\<forall>u \<in> set (map user_id availableUsers) - set rs. \<forall>r \<in> set rs.
                scoreFor (info_area areaInfo) today userMetrics targetWorkload u
                  \<le> scoreFor (info_area areaInfo) today userMetrics targetWorkload r"
    by blast
  have live: "\<forall>u m. map_of userMetrics u = Some m \<longrightarrow>
                (\<exists>m'. map_of (fold (assignArea areaInfo today) rs userMetrics) u = Some m'
                   \<and> currentWorkload m' = currentWorkload m + difficulty areaInfo * count_list rs u)"
    by (simp add: map_of_fold_assignArea currentWorkload_assignStep)
  have loop: "assignAreas (areaInfo # rest) availableUsers targetWorkload today i userMetrics =
              map_option
                (\<lambda>ts. newCleaningTask i (info_area areaInfo) (frequencyOf (info_area areaInfo)) rs
                        today (calculateEndDate today (frequencyOf (info_area areaInfo)))
                        (selectVerifiers rs availableUsers
                           (fold (assignArea areaInfo today) rs userMetrics)) # ts)
                (assignAreas rest availableUsers targetWorkload today (Suc i)
                   (fold (assignArea areaInfo today) rs userMetrics))"
    using rs(1) by (simp add: Let_def split: option.splits)
  have formula: "\<forall>u m. map_of userMetrics u = Some m \<longrightarrow>
      scoreFor (info_area areaInfo) today userMetrics targetWorkload u =
     fadd
       (fadd
          (fadd
             (fadd
                (fmul (double_0_2)
                   (case map_of (lastAssignedAreas m) (info_area areaInfo) of
                      None \<Rightarrow> 365
                    | Some d \<Rightarrow>
                        real_of_int
                          \<lfloor>fdiv (fsub (of_int (timeValue today)) (of_int (timeValue d)))
                             (of_int msPerDay)\<rfloor>))
                (fmul (double_0_2)
                   (fsub 10 (real (case map_of (areaAssignmentCounts m) (info_area areaInfo) of
                                     None \<Rightarrow> 0 | Some c \<Rightarrow> c)))))
             (fmul (double_0_3) (fsub targetWorkload (real (currentWorkload m)))))
          (fmul (double_0_2) (fmul (completionRate m) 3)))
       (fmul (double_0_1)
          (fsub 1
             (fdiv (real (totalHistoricalTasks m))
                (real (max 1 (Max (insert 0 ((totalHistoricalTasks \<circ> snd) ` set userMetrics))))))))"
    using userScore_formula[of "info_area areaInfo" today userMetrics targetWorkload]
    by (simp add: scoreFor_def)
  from formula rs live loop show ?thesis by blast
qed

text \<open>
  On the sample metrics user 2, who never had \<open>Basura\<close>, is selected before user 1;
  the scores are the doubles 7.000000000000001 and 77.43333333333332. On
  \<open>tieMetrics\<close> the two scores, equal in exact arithmetic, are the doubles
  4.199999999999999 and 4.200000000000001, and user 2 is selected although user 1 is
  listed first.
\<close>

theorem selectResponsiblesForArea_score_and_rank_witness:
  "selectResponsiblesForArea basuraArea metricsUsers
      (calculateUserMetrics metricsHistory metricsUsers) 7 jan31 = Some [2]
   \<and> scoreFor ''Basura'' jan31 (calculateUserMetrics metricsHistory metricsUsers) 7 1
       = 7881299347898369 / 1125899906842624
   \<and> scoreFor ''Basura'' jan31 (calculateUserMetrics metricsHistory metricsUsers) 7 2
       = 5448886424157115 / 70368744177664
   \<and> scoreFor ''Basura'' jan31 (calculateUserMetrics metricsHistory metricsUsers) 7 1
       \<le> scoreFor ''Basura'' jan31 (calculateUserMetrics metricsHistory metricsUsers) 7 2
   \<and> selectResponsiblesForArea basuraArea metricsUsers tieMetrics 7 jan31 = Some [2]
   \<and> scoreFor ''Basura'' jan31 tieMetrics 7 1 = 1182194902184755 / 281474976710656
   \<and> scoreFor ''Basura'' jan31 tieMetrics 7 2 = 2364389804369511 / 562949953421312
   \<and> scoreFor ''Basura'' jan31 tieMetrics 7 1 \<le> scoreFor ''Basura'' jan31 tieMetrics 7 2"
proof -
  define um where "um = calculateUserMetrics metricsHistory metricsUsers"
  note doubles = fadd_def fsub_def fmul_def fdiv_def toDouble_def binaryExponent_def
      twoTo_def roundHalfEven_def bitLength.simps double_0_1_def double_0_2_def
      double_0_3_def
  note evaluate = um_def selectResponsiblesForArea_def basuraArea_def metricsUsers_def
      metricsHistory_def calculateUserMetrics_def analyseTask_def creditResponsible_def
      creditTemporary_def creditCompletion_def recordArea_def setCompletionRate_def
      initialMetrics_def plainTask_def userScore_def scoreFor_def maxHistoricalTasks_def
      timeValue_def jan15_def jan31_def msPerDay_def DayFromYear_def Let_def tieMetrics_def
      doubles
  have s1: "scoreFor ''Basura'' jan31 um 7 1 = 7881299347898369 / 1125899906842624"
    by (simp add: evaluate)
  have s2: "scoreFor ''Basura'' jan31 um 7 2 = 5448886424157115 / 70368744177664"
    by (simp add: evaluate)
  have t1: "scoreFor ''Basura'' jan31 tieMetrics 7 1 = 1182194902184755 / 281474976710656"
    by (simp add: evaluate)
  have t2: "scoreFor ''Basura'' jan31 tieMetrics 7 2 = 2364389804369511 / 562949953421312"
    by (simp add: evaluate)
  have keys: "\<forall>u \<in> set metricsUsers. map_of um (user_id u) \<noteq> None"
    by (simp add: um_def map_of_calculateUserMetrics)
  have tkeys: "\<forall>u \<in> set metricsUsers. map_of tieMetrics (user_id u) \<noteq> None"
    by (simp add: metricsUsers_def tieMetrics_def)
  have ids: "set (map user_id metricsUsers) = {1, 2}" "length metricsUsers = 2"
    "peopleNeeded basuraArea = 1" "info_area basuraArea = ''Basura''"
    by (auto simp: metricsUsers_def basuraArea_def)
  have pick: "rs = [2]"
    if rs: "length rs = min (peopleNeeded basuraArea) (length metricsUsers)"
      "set rs \<subseteq> set (map user_id metricsUsers)"
      "\<forall>u \<in> set (map user_id metricsUsers) - set rs. \<forall>r \<in> set rs. sc u \<le> sc r"
      and lt: "sc 1 < sc 2"
    for rs :: "user_id list" and sc :: "user_id \<Rightarrow> real"
  proof -
    from rs(1) obtain r where r: "rs = [r]"
      unfolding ids by (cases rs) auto
    with rs(2) have "r = 1 \<or> r = 2" unfolding ids by simp
    moreover have "r \<noteq> 1"
    proof
      assume "r = 1"
      with r rs(3) have "sc 2 \<le> sc 1" unfolding ids by simp
      with lt show False by simp
    qed
    ultimately show ?thesis using r by simp
  qed
  from selectResponsiblesForArea_score_and_rank[OF keys, of basuraArea jan31 7 "[]" 0]
  obtain rs where rs: "selectResponsiblesForArea basuraArea metricsUsers um 7 jan31 = Some rs"
    "length rs = min (peopleNeeded basuraArea) (length metricsUsers)"
    "set rs \<subseteq> set (map user_id metricsUsers)"
    "\<forall>u \<in> set (map user_id metricsUsers) - set rs. \<forall>r \<in> set rs.
        scoreFor (info_area basuraArea) jan31 um 7 u \<le> scoreFor (info_area basuraArea) jan31 um 7 r"
    by blast
  have "scoreFor (info_area basuraArea) jan31 um 7 1 < scoreFor (info_area basuraArea) jan31 um 7 2"
    unfolding ids s1 s2 by simp
  from pick[OF rs(2,3,4) this] rs(1)
  have ev: "selectResponsiblesForArea basuraArea metricsUsers um 7 jan31 = Some [2]" by simp
  from selectResponsiblesForArea_score_and_rank[OF tkeys, of basuraArea jan31 7 "[]" 0]
  obtain ts where ts: "selectResponsiblesForArea basuraArea metricsUsers tieMetrics 7 jan31 = Some ts"
    "length ts = min (peopleNeeded basuraArea) (length metricsUsers)"
    "set ts \<subseteq> set (map user_id metricsUsers)"
    "\<forall>u \<in> set (map user_id metricsUsers) - set ts. \<forall>r \<in> set ts.
        scoreFor (info_area basuraArea) jan31 tieMetrics 7 u
          \<le> scoreFor (info_area basuraArea) jan31 tieMetrics 7 r"
    by blast
  have "scoreFor (info_area basuraArea) jan31 tieMetrics 7 1
      < scoreFor (info_area basuraArea) jan31 tieMetrics 7 2"
    unfolding ids t1 t2 by simp
  from pick[OF ts(2,3,4) this] ts(1)
  have tev: "selectResponsiblesForArea basuraArea metricsUsers tieMetrics 7 jan31 = Some [2]"
    by simp
  have le: "scoreFor ''Basura'' jan31 um 7 1 \<le> scoreFor ''Basura'' jan31 um 7 2"
    unfolding s1 s2 by simp
  have tle: "scoreFor ''Basura'' jan31 tieMetrics 7 1 \<le> scoreFor ''Basura'' jan31 tieMetrics 7 2"
    unfolding t1 t2 by simp
  from ev s1 s2 le tev t1 t2 tle show ?thesis unfolding um_def by blast
qed

section \<open>The rotation\<close>

lemma assignArea_keeps_keys:
  "(map_of (fold (assignArea ai now) rs um) uid = None) = (map_of um uid = None)"
  by (simp add: map_of_fold_assignArea)

lemma newCleaningTask_fields:
  "task_id (newCleaningTask i a f rs st en vs) = i"
  "area (newCleaningTask i a f rs st en vs) = a"
  "responsibles (newCleaningTask i a f rs st en vs) = rs"
  "startDate (newCleaningTask i a f rs st en vs) = st"
  "completed (newCleaningTask i a f rs st en vs) = False"
  "verificationStatus (newCleaningTask i a f rs st en vs) = Pending"
  "verifications (newCleaningTask i a f rs st en vs) = []"
  "swapRequests (newCleaningTask i a f rs st en vs) = []"
  "temporaryResponsible (newCleaningTask i a f rs st en vs) = None"
  by (simp_all add: newCleaningTask_def)

lemma assignAreas_Some:
  assumes "\<forall>u \<in> set us. map_of um (user_id u) \<noteq> None"
  shows "\<exists>ts. assignAreas areas us target now i um = Some ts
     \<and> map task_id ts = [i ..< i + length areas]
     \<and> map area ts = map info_area areas
     \<and> map (length \<circ> responsibles) ts = map (\<lambda>a. min (peopleNeeded a) (length us)) areas
     \<and> list_all (freshTask now) ts"
  using assms
proof (induction areas arbitrary: i um)
  case Nil
  then show ?case by simp
next
  case (Cons a areas)
  from selectResponsibles_ranked[OF Cons.prems, of a target now]
  obtain rs where rs: "selectResponsiblesForArea a us um target now = Some rs"
    "length rs = min (peopleNeeded a) (length us)" by blast
  define um' where "um' = fold (assignArea a now) rs um"
  have keys: "\<forall>u \<in> set us. map_of um' (user_id u) \<noteq> None"
    using Cons.prems by (simp add: um'_def assignArea_keeps_keys)
  from Cons.IH[OF keys, of "Suc i"]
  obtain ts where ts: "assignAreas areas us target now (Suc i) um' = Some ts"
    "map task_id ts = [Suc i ..< Suc i + length areas]"
    "map area ts = map info_area areas"
    "map (length \<circ> responsibles) ts = map (\<lambda>a. min (peopleNeeded a) (length us)) areas"
    "list_all (freshTask now) ts"
    by blast
  define t0 where "t0 = newCleaningTask i (info_area a) (frequencyOf (info_area a)) rs now
              (calculateEndDate now (frequencyOf (info_area a))) (selectVerifiers rs us um')"
  have run: "assignAreas (a # areas) us target now i um = Some (t0 # ts)"
    using rs(1) ts(1) by (simp add: Let_def um'_def t0_def)
  have upt: "[i ..< i + length (a # areas)] = i # [Suc i ..< Suc i + length areas]"
    by (subst upt_rec) simp
  have ids: "map task_id (t0 # ts) = [i ..< i + length (a # areas)]"
    unfolding upt using ts(2) by (simp add: t0_def newCleaningTask_fields)
  have names: "map area (t0 # ts) = map info_area (a # areas)"
    using ts(3) by (simp add: t0_def newCleaningTask_fields)
  have counts: "map (length \<circ> responsibles) (t0 # ts)
      = map (\<lambda>a. min (peopleNeeded a) (length us)) (a # areas)"
    using ts(4) rs(2) by (simp add: t0_def newCleaningTask_fields)
  have fresh: "list_all (freshTask now) (t0 # ts)"
    using ts(5) by (simp add: t0_def newCleaningTask_fields freshTask_def)
  from run ids names counts fresh show ?case by blast
qed

lemma reset_keeps_keys:
  "(map_of (fold (\<lambda>u. AList.map_entry (user_id u) f) us um) uid = None) = (map_of um uid = None)"
  by (induction us arbitrary: um) (auto simp: map_of_map_entry split: option.splits)

lemma prioritizedAreas:
  "sort_key (\<lambda>a. - int (difficulty a)) areaConfig =
     [areaConfig ! 5, areaConfig ! 3, areaConfig ! 7, areaConfig ! 0, areaConfig ! 1,
      areaConfig ! 2, areaConfig ! 4, areaConfig ! 6]"
  by (simp add: areaConfig_def)

text \<open>
  C4. With fewer than two available users \<open>rotateAssignments\<close> answers 400 and the
  database is unchanged. With two or more it never fails: the task collection becomes
  the eight newly created tasks, one per area in the order of decreasing difficulty,
  with new ids and the needed number of responsibles; nothing of the prior tasks
  remains.
\<close>

theorem rotateAssignments_precondition:
  "(length (filter availableNextWeek (users s)) < 2 \<longrightarrow>
      rotateAssignments now s = (Inl (400, InsufficientUsers), s))
   \<and> (2 \<le> length (filter availableNextWeek (users s)) \<longrightarrow>
      (\<exists>newTasks. rotateAssignments now s =
           (Inr newTasks, s\<lparr>tasks := newTasks, nextId := nextId s + 8\<rparr>)
         \<and> map task_id newTasks = [nextId s ..< nextId s + 8]
         \<and> map area newTasks =
             [''Cocina y Living'', ''Terraza y Escaleras'', ''Cortar el pasto'',
              ''Ba'' @ [CHR 0xF1] @ ''o 1'', ''Ba'' @ [CHR 0xF1] @ ''o 2'',
              ''Ba'' @ [CHR 0xF1] @ ''o 3'', ''Orden de Cocina'', ''Basura'']
         \<and> map (length \<circ> responsibles) newTasks = [2, 2, 2, 1, 1, 1, 1, 1]
         \<and> list_all (freshTask now) newTasks))"
proof (intro conjI impI)
  assume "length (filter availableNextWeek (users s)) < 2"
  then show "rotateAssignments now s = (Inl (400, InsufficientUsers), s)"
    by (simp add: rotateAssignments_def Let_def)
next
  assume two: "2 \<le> length (filter availableNextWeek (users s))"
  define us where "us = filter availableNextWeek (users s)"
  define um where "um = calculateUserMetrics (sort_key (\<lambda>t. - timeValue (endDate t)) (tasks s)) us"
  define um0 where "um0 = fold (\<lambda>u. AList.map_entry (user_id u) (\<lambda>m. m\<lparr>currentWorkload := 0\<rparr>)) us um"
  define target where "target = fdiv (real (fold (\<lambda>a sum. sum + difficulty a * peopleNeeded a) areaConfig 0))
      (real (length us))"
  define areas where "areas = sort_key (\<lambda>a. - int (difficulty a)) areaConfig"
  have keys: "\<forall>u \<in> set us. map_of um0 (user_id u) \<noteq> None"
    by (simp add: um0_def reset_keeps_keys um_def map_of_calculateUserMetrics)
  from assignAreas_Some[OF keys, of areas target now "nextId s"]
  obtain ts where ts: "assignAreas areas us target now (nextId s) um0 = Some ts"
    "map task_id ts = [nextId s ..< nextId s + length areas]"
    "map area ts = map info_area areas"
    "map (length \<circ> responsibles) ts = map (\<lambda>a. min (peopleNeeded a) (length us)) areas"
    "list_all (freshTask now) ts"
    by blast
  have len: "length areas = 8" by (simp add: areas_def areaConfig_def)
  have lts: "length ts = 8" using ts(2) len by (metis length_map length_upt add_diff_cancel_left')
  have run: "rotateAssignments now s = (Inr ts, s\<lparr>tasks := ts, nextId := nextId s + 8\<rparr>)"
    using two ts(1) lts
    by (simp add: rotateAssignments_def Let_def us_def[symmetric] um_def[symmetric]
        um0_def[symmetric] target_def[symmetric] areas_def[symmetric])
  have names: "map area ts =
             [''Cocina y Living'', ''Terraza y Escaleras'', ''Cortar el pasto'',
              ''Ba'' @ [CHR 0xF1] @ ''o 1'', ''Ba'' @ [CHR 0xF1] @ ''o 2'',
              ''Ba'' @ [CHR 0xF1] @ ''o 3'', ''Orden de Cocina'', ''Basura'']"
    unfolding ts(3) areas_def prioritizedAreas by (simp add: areaConfig_def)
  have "2 \<le> length us" using two by (simp add: us_def)
  then have counts: "map (length \<circ> responsibles) ts = [2, 2, 2, 1, 1, 1, 1, 1]"
    unfolding ts(4) areas_def prioritizedAreas by (simp add: areaConfig_def)
  show "\<exists>newTasks. rotateAssignments now s =
           (Inr newTasks, s\<lparr>tasks := newTasks, nextId := nextId s + 8\<rparr>)
         \<and> map task_id newTasks = [nextId s ..< nextId s + 8]
         \<and> map area newTasks =
             [''Cocina y Living'', ''Terraza y Escaleras'', ''Cortar el pasto'',
              ''Ba'' @ [CHR 0xF1] @ ''o 1'', ''Ba'' @ [CHR 0xF1] @ ''o 2'',
              ''Ba'' @ [CHR 0xF1] @ ''o 3'', ''Orden de Cocina'', ''Basura'']
         \<and> map (length \<circ> responsibles) newTasks = [2, 2, 2, 1, 1, 1, 1, 1]
         \<and> list_all (freshTask now) newTasks"
    using run ts(2) len names counts ts(5) by auto
qed

text \<open>
  No user at all: the rotation fails and the one task stays. The two sample users:
  the four past tasks give way to eight new ones.
\<close>

theorem rotateAssignments_precondition_witness:
  "rotateAssignments jan15 (oneTaskDb (plainTask 1 [1]))
      = (Inl (400, InsufficientUsers), oneTaskDb (plainTask 1 [1]))
   \<and> (\<exists>newTasks. rotateAssignments jan15 rotationDb =
           (Inr newTasks, rotationDb\<lparr>tasks := newTasks, nextId := 13\<rparr>)
         \<and> map task_id newTasks = [5, 6, 7, 8, 9, 10, 11, 12]
         \<and> map (length \<circ> responsibles) newTasks = [2, 2, 2, 1, 1, 1, 1, 1]
         \<and> list_all (freshTask jan15) newTasks)"
proof -
  have none: "length (filter availableNextWeek (users (oneTaskDb (plainTask 1 [1])))) < 2"
    by (simp add: oneTaskDb_def)
  have two: "2 \<le> length (filter availableNextWeek (users rotationDb))"
    by (simp add: rotationDb_def metricsUsers_def)
  have nid: "nextId rotationDb + 8 = 13" by (simp add: rotationDb_def)
  have ids: "[nextId rotationDb ..< 13] = [5, 6, 7, 8, 9, 10, 11, 12]"
    by (simp add: rotationDb_def upt_rec)
  have "length (filter availableNextWeek (users (oneTaskDb (plainTask 1 [1])))) < 2 \<longrightarrow>
      rotateAssignments jan15 (oneTaskDb (plainTask 1 [1]))
        = (Inl (400, InsufficientUsers), oneTaskDb (plainTask 1 [1]))"
    using rotateAssignments_precondition[of "oneTaskDb (plainTask 1 [1])" jan15]
    by (rule conjunct1)
  from this none have a: "rotateAssignments jan15 (oneTaskDb (plainTask 1 [1]))
      = (Inl (400, InsufficientUsers), oneTaskDb (plainTask 1 [1]))" by (rule mp)
  have "2 \<le> length (filter availableNextWeek (users rotationDb)) \<longrightarrow>
      (\<exists>newTasks. rotateAssignments jan15 rotationDb =
           (Inr newTasks, rotationDb\<lparr>tasks := newTasks, nextId := nextId rotationDb + 8\<rparr>)
         \<and> map task_id newTasks = [nextId rotationDb ..< nextId rotationDb + 8]
         \<and> map area newTasks =
             [''Cocina y Living'', ''Terraza y Escaleras'', ''Cortar el pasto'',
              ''Ba'' @ [CHR 0xF1] @ ''o 1'', ''Ba'' @ [CHR 0xF1] @ ''o 2'',
              ''Ba'' @ [CHR 0xF1] @ ''o 3'', ''Orden de Cocina'', ''Basura'']
         \<and> map (length \<circ> responsibles) newTasks = [2, 2, 2, 1, 1, 1, 1, 1]
         \<and> list_all (freshTask jan15) newTasks)"
    using rotateAssignments_precondition[of rotationDb jan15] by (rule conjunct2)
  from this two obtain newTasks where n:
    "rotateAssignments jan15 rotationDb =
           (Inr newTasks, rotationDb\<lparr>tasks := newTasks, nextId := nextId rotationDb + 8\<rparr>)"
    "map task_id newTasks = [nextId rotationDb ..< nextId rotationDb + 8]"
    "map (length \<circ> responsibles) newTasks = [2, 2, 2, 1, 1, 1, 1, 1]"
    "list_all (freshTask jan15) newTasks"
    by (elim impE exE conjE) assumption
  have b: "\<exists>newTasks. rotateAssignments jan15 rotationDb =
           (Inr newTasks, rotationDb\<lparr>tasks := newTasks, nextId := 13\<rparr>)
         \<and> map task_id newTasks = [5, 6, 7, 8, 9, 10, 11, 12]
         \<and> map (length \<circ> responsibles) newTasks = [2, 2, 2, 1, 1, 1, 1, 1]
         \<and> list_all (freshTask jan15) newTasks"
    using n unfolding nid ids by (intro exI[of _ newTasks] conjI)
  from a b show ?thesis by (rule conjI)
qed

end
